theory Spec2Isabelle
  imports Main "HOL-Library.AList"
begin

section \<open>JavaScript strings and the POSIX path module\<close>

text \<open>
  Strings are lists of 8-bit characters. The functions of this section model the
  runtime library that \<^verbatim>\<open>NodejsWorkerBundler.ts\<close> calls: \<^verbatim>\<open>String.prototype.startsWith\<close>,
  and \<^verbatim>\<open>path.basename\<close>, \<^verbatim>\<open>path.dirname\<close>, \<^verbatim>\<open>path.isAbsolute\<close> and \<^verbatim>\<open>path.resolve\<close> of
  Node's POSIX path module.
\<close>

definition startsWith :: "string \<Rightarrow> string \<Rightarrow> bool" where
  "startsWith s p = (take (length p) s = p)"

definition isSlash :: "char \<Rightarrow> bool" where
  "isSlash c = (c = CHR ''/'')"

definition isAbsolute :: "string \<Rightarrow> bool" where
  "isAbsolute p = (case p of [] \<Rightarrow> False | c # _ \<Rightarrow> isSlash c)"

text \<open>
  \<^verbatim>\<open>path.basename(p)\<close>: trailing slashes are skipped, and the result is what follows the
  last remaining slash (the empty string when \<open>p\<close> holds slashes only).
\<close>

definition basename :: "string \<Rightarrow> string" where
  "basename p = rev (takeWhile (\<lambda>c. \<not> isSlash c) (dropWhile isSlash (rev p)))"

text \<open>
  \<^verbatim>\<open>path.dirname(p)\<close>: the scan runs from the last index down to index 1, skips trailing
  slashes and the last component, and stops at the slash before it (index \<open>end\<close>).
  \<open>dirname_scan p\<close> is the reversed slice of \<open>p\<close> from index 1 to \<open>end\<close>, both included,
  so that \<open>end\<close> is its length, and it is empty when no such slash exists.
\<close>

definition dirname_scan :: "string \<Rightarrow> string" where
  "dirname_scan p = dropWhile (\<lambda>c. \<not> isSlash c) (dropWhile isSlash (rev (tl p)))"

definition dirname :: "string \<Rightarrow> string" where
  "dirname p =
     (if p = [] then ''.''
      else let hasRoot = isSlash (hd p); endIdx = length (dirname_scan p)
           in if endIdx = 0 then (if hasRoot then ''/'' else ''.'')
              else if hasRoot \<and> endIdx = 1 then ''//''
              else take endIdx p)"

text \<open>
  \<^verbatim>\<open>path.resolve(...args)\<close>: the arguments are taken from the right, and then the working
  directory, until an absolute one is met; empty arguments are skipped; the joined string
  is normalised segment by segment (\<^verbatim>\<open>normalizeString\<close>), where \<^verbatim>\<open>.\<close> and empty segments
  vanish and \<^verbatim>\<open>..\<close> removes the segment before it. Above the root \<^verbatim>\<open>..\<close> is dropped when
  the path is absolute and kept otherwise.
\<close>

fun splitSlash :: "string \<Rightarrow> string list" where
  "splitSlash [] = [[]]"
| "splitSlash (c # cs) =
     (if isSlash c then [] # splitSlash cs
      else (case splitSlash cs of [] \<Rightarrow> [[c]] | s # ss \<Rightarrow> (c # s) # ss))"

fun normalizeStep :: "bool \<Rightarrow> string list \<Rightarrow> string \<Rightarrow> string list" where
  "normalizeStep allowAboveRoot res seg =
     (if seg = [] \<or> seg = ''.'' then res
      else if seg = ''..'' then
        (case res of
           [] \<Rightarrow> if allowAboveRoot then [''..''] else []
         | seg0 # below \<Rightarrow>
             if seg0 = ''..'' then (if allowAboveRoot then ''..'' # res else res)
             else below)
      else seg # res)"

fun joinSlash :: "string list \<Rightarrow> string" where
  "joinSlash [] = []"
| "joinSlash [s] = s"
| "joinSlash (s # t # ss) = s @ ''/'' @ joinSlash (t # ss)"

definition normalizeString :: "string \<Rightarrow> bool \<Rightarrow> string" where
  "normalizeString p allowAboveRoot =
     joinSlash (rev (foldl (normalizeStep allowAboveRoot) [] (splitSlash p)))"

fun resolveJoin :: "string list \<Rightarrow> string \<Rightarrow> string" where
  "resolveJoin [] resolvedPath = resolvedPath"
| "resolveJoin (p # ps) resolvedPath =
     (if p = [] then resolveJoin ps resolvedPath
      else if isAbsolute p then p @ ''/'' @ resolvedPath
      else resolveJoin ps (p @ ''/'' @ resolvedPath))"

definition resolve :: "string \<Rightarrow> string \<Rightarrow> string \<Rightarrow> string" where
  "resolve cwd a b =
     (let resolvedPath = resolveJoin [b, a, cwd] [];
          resolvedAbsolute = isAbsolute resolvedPath;
          normalized = normalizeString resolvedPath (\<not> resolvedAbsolute)
      in if resolvedAbsolute then ''/'' @ normalized
         else if normalized = [] then ''.'' else normalized)"


section \<open>The workflow reference rewriter\<close>

subsection \<open>The candidate identifier\<close>

text \<open>
  \<^verbatim>\<open>path.basename(workflowsPath).replace(/[^a-z0-9]+/i, '-').replace(/^-/, '').replace(/-$/, '')\<close>.
  None of the three patterns has the \<^verbatim>\<open>g\<close> flag, so each \<^verbatim>\<open>replace\<close> rewrites its first
  match only: the leftmost longest run of characters outside \<^verbatim>\<open>[A-Za-z0-9]\<close> (the class is
  negated under the \<^verbatim>\<open>i\<close> flag), then one hyphen at the start, then one at the end.
\<close>

definition isAlnum :: "char \<Rightarrow> bool" where
  "isAlnum c = (c \<in> set ''abcdefghijklmnopqrstuvwxyzABCDEFGHIJKLMNOPQRSTUVWXYZ0123456789'')"

fun replaceFirstRun :: "string \<Rightarrow> string" where
  "replaceFirstRun [] = []"
| "replaceFirstRun (c # cs) =
     (if isAlnum c then c # replaceFirstRun cs
      else CHR ''-'' # dropWhile (\<lambda>x. \<not> isAlnum x) cs)"

definition stripLeadingHyphen :: "string \<Rightarrow> string" where
  "stripLeadingHyphen s = (case s of [] \<Rightarrow> [] | c # cs \<Rightarrow> if c = CHR ''-'' then cs else s)"

definition stripTrailingHyphen :: "string \<Rightarrow> string" where
  "stripTrailingHyphen s = (if s \<noteq> [] \<and> last s = CHR ''-'' then butlast s else s)"

definition baseWorkflowsBundleId :: "string \<Rightarrow> string" where
  "baseWorkflowsBundleId workflowsPath =
     stripTrailingHyphen (stripLeadingHyphen (replaceFirstRun (basename workflowsPath)))"

subsection \<open>The table of workflow bundles\<close>

text \<open>
  \<^verbatim>\<open>workflowsBundles\<close> is a plain object created by \<^verbatim>\<open>{}\<close>: its own properties are the
  association list, and the operator \<^verbatim>\<open>in\<close> also answers true for the properties it
  inherits from \<^verbatim>\<open>Object.prototype\<close>. Reading \<^verbatim>\<open>.sourcePath\<close> of an inherited property
  gives \<^verbatim>\<open>undefined\<close>, which differs from every string.
\<close>

record bundleDefinition =
  sourcePath :: string
  targetPath :: string

type_synonym workflowsBundles = "(string \<times> bundleDefinition) list"

definition objectPrototypeKeys :: "string list" where
  "objectPrototypeKeys =
     [''constructor'', ''hasOwnProperty'', ''isPrototypeOf'', ''propertyIsEnumerable'',
      ''toLocaleString'', ''toString'', ''valueOf'', ''__proto__'',
      ''__defineGetter__'', ''__defineSetter__'', ''__lookupGetter__'', ''__lookupSetter__'']"

definition keyIn :: "string \<Rightarrow> workflowsBundles \<Rightarrow> bool" where
  "keyIn k t = (k \<in> set (map fst t) \<or> k \<in> set objectPrototypeKeys)"

text \<open>The loop condition:
  \<^verbatim>\<open>id in this.workflowsBundles && this.workflowsBundles[id].sourcePath !== sourcePath\<close>.\<close>

definition collides :: "workflowsBundles \<Rightarrow> string \<Rightarrow> string \<Rightarrow> bool" where
  "collides t k src =
     (keyIn k t \<and> (case map_of t k of None \<Rightarrow> True | Some e \<Rightarrow> sourcePath e \<noteq> src))"

subsection \<open>Decimal numbers in template strings\<close>

definition digitChar :: "nat \<Rightarrow> char" where
  "digitChar d = ''0123456789'' ! d"

fun showNat :: "nat \<Rightarrow> string" where
  "showNat n = (if n < 10 then [digitChar n] else showNat (n div 10) @ [digitChar (n mod 10)])"

declare showNat.simps [simp del]

text \<open>\<^verbatim>\<open>`${baseWorkflowsBundleId}-${suffix}`\<close>\<close>

definition suffixedId :: "string \<Rightarrow> nat \<Rightarrow> string" where
  "suffixedId base suffix = base @ ''-'' @ showNat suffix"

subsection \<open>The collision loop\<close>

text \<open>
  \<^verbatim>\<open>let id = base; let suffix = 1; while (collides) id = `${base}-${suffix++}`;\<close>
  The loop ends because the table is finite and the suffixed identifiers are pairwise
  different: each round leaves fewer keys of the table among the candidates still ahead.
  The counter is a natural number: a double counts exactly up to \<open>2\<^sup>5\<^sup>3\<close>, more
  rounds than a table can hold entries.
\<close>

definition allKeys :: "workflowsBundles \<Rightarrow> string set" where
  "allKeys t = set (map fst t) \<union> set objectPrototypeKeys"

definition readNat :: "string \<Rightarrow> nat" where
  "readNat s = foldl (\<lambda>a c. 10 * a + (of_char c - 48)) 0 s"

lemma of_char_digitChar: "d < 10 \<Longrightarrow> of_char (digitChar d) = (48 + d :: nat)"
  unfolding digitChar_def by (auto simp: less_Suc_eq numeral_nat nth_Cons')

lemma readNat_showNat: "readNat (showNat n) = n"
proof (induction n rule: showNat.induct)
  case (1 n)
  show ?case
  proof (cases "n < 10")
    case True
    then show ?thesis by (simp add: showNat.simps readNat_def of_char_digitChar)
  next
    case False
    have "readNat (showNat n) = 10 * readNat (showNat (n div 10)) + (of_char (digitChar (n mod 10)) - 48)"
      using False by (subst showNat.simps) (simp add: readNat_def)
    also have "\<dots> = 10 * (n div 10) + n mod 10"
      using 1 False by (simp add: of_char_digitChar)
    finally show ?thesis by simp
  qed
qed

lemma showNat_inj: "showNat m = showNat n \<Longrightarrow> m = n"
  by (metis readNat_showNat)

lemma suffixedId_inj: "suffixedId base m = suffixedId base n \<Longrightarrow> m = n"
  by (simp add: suffixedId_def showNat_inj)

lemma finite_suffixes: "finite {j. suffixedId base j \<in> allKeys t}"
proof -
  have "finite (allKeys t)" by (simp add: allKeys_def)
  moreover have "inj (suffixedId base)" by (rule injI) (rule suffixedId_inj)
  ultimately have "finite (suffixedId base -` allKeys t)" by (rule finite_vimageI)
  then show ?thesis by (simp add: vimage_def)
qed

lemma collides_allKeys: "collides t k src \<Longrightarrow> k \<in> allKeys t"
  by (auto simp: collides_def keyIn_def allKeys_def)

definition loopMeasure :: "workflowsBundles \<times> string \<times> string \<times> string \<times> nat \<Rightarrow> nat" where
  "loopMeasure = (\<lambda>(t, src, base, wid, suffix).
     2 * card {j. suffix \<le> j \<and> suffixedId base j \<in> allKeys t} + (if wid \<in> allKeys t then 1 else 0))"

lemma loopMeasure_decreases:
  assumes "collides t wid src"
  shows "loopMeasure (t, src, base, suffixedId base suffix, Suc suffix) < loopMeasure (t, src, base, wid, suffix)"
proof -
  let ?S = "\<lambda>s. {j. s \<le> j \<and> suffixedId base j \<in> allKeys t}"
  have fin: "finite (?S suffix)"
    by (rule finite_subset [OF _ finite_suffixes [of base t]]) auto
  have wid: "wid \<in> allKeys t" using assms by (rule collides_allKeys)
  show ?thesis
  proof (cases "suffixedId base suffix \<in> allKeys t")
    case True
    have "suffix \<in> ?S suffix" "suffix \<notin> ?S (Suc suffix)" using True by auto
    moreover have "?S (Suc suffix) \<subseteq> ?S suffix" by auto
    ultimately have "?S (Suc suffix) \<subset> ?S suffix" by blast
    then have "card (?S (Suc suffix)) < card (?S suffix)" using fin by (rule psubset_card_mono [rotated])
    then show ?thesis using True wid by (simp add: loopMeasure_def)
  next
    case False
    have "\<And>j. suffix \<le> j \<and> suffixedId base j \<in> allKeys t \<longleftrightarrow> Suc suffix \<le> j \<and> suffixedId base j \<in> allKeys t"
      using False by (metis Suc_leI Suc_leD le_neq_implies_less)
    then have "?S (Suc suffix) = ?S suffix" by simp
    then show ?thesis using False wid by (simp add: loopMeasure_def)
  qed
qed

function resolveCollision :: "workflowsBundles \<Rightarrow> string \<Rightarrow> string \<Rightarrow> string \<Rightarrow> nat \<Rightarrow> string" where
  "resolveCollision t src base wid suffix =
     (if collides t wid src then resolveCollision t src base (suffixedId base suffix) (Suc suffix)
      else wid)"
  by pat_completeness auto
termination
  by (relation "measure loopMeasure") (simp_all add: loopMeasure_decreases)

declare resolveCollision.simps [simp del]


subsection \<open>workflowsTransform\<close>

datatype jsError = Error string

text \<open>
  The hook that the Babel plugin calls for each workflow reference. \<open>cwd\<close> is the
  working directory that \<^verbatim>\<open>path.resolve\<close> falls back to when \<open>filename\<close> is not
  absolute; \<open>t\<close> is \<^verbatim>\<open>this.workflowsBundles\<close>, returned updated. The assignment
  \<^verbatim>\<open>this.workflowsBundles[id] = {...}\<close> overwrites an own property in place or appends a new
  one (the identifier is never \<^verbatim>\<open>__proto__\<close>, see \<open>workflowsBundleId_not_proto\<close>).
\<close>

definition targetPathOf :: "string \<Rightarrow> string" where
  "targetPathOf wid = ''./'' @ wid @ ''.workflowbundle.js''"

definition workflowsTransform ::
  "string \<Rightarrow> workflowsBundles \<Rightarrow> string \<Rightarrow> string \<Rightarrow> jsError + (string \<times> workflowsBundles)" where
  "workflowsTransform cwd t workflowsPath filename =
     (if \<not> (startsWith workflowsPath ''./'' \<or> startsWith workflowsPath ''../'')
      then Inl (Error ''workflowsPath must be relative'')
      else
        let src = resolve cwd (dirname filename) workflowsPath;
            base = baseWorkflowsBundleId workflowsPath;
            wid = resolveCollision t src base base 1;
            tgt = targetPathOf wid
        in Inr (tgt, AList.update wid \<lparr>sourcePath = src, targetPath = tgt\<rparr> t))"

text \<open>
  A build run calls the hook once per reference, in the order the bundler meets them.
  A call that throws leaves the table as it was.
\<close>

fun workflowsTransformAll ::
  "string \<Rightarrow> workflowsBundles \<Rightarrow> (string \<times> string) list \<Rightarrow> workflowsBundles" where
  "workflowsTransformAll cwd t [] = t"
| "workflowsTransformAll cwd t ((workflowsPath, filename) # refs) =
     (case workflowsTransform cwd t workflowsPath filename of
        Inl _ \<Rightarrow> workflowsTransformAll cwd t refs
      | Inr (_, t') \<Rightarrow> workflowsTransformAll cwd t' refs)"

text \<open>The entries of the table that were made for a given source path.\<close>

definition entriesFor :: "workflowsBundles \<Rightarrow> string \<Rightarrow> (string \<times> bundleDefinition) list" where
  "entriesFor t src = filter (\<lambda>(k, e). sourcePath e = src) t"


section \<open>Externalization patterns\<close>

text \<open>
  A \<^verbatim>\<open>RegExp\<close> is used through \<^verbatim>\<open>test\<close> only, so it is modelled by the predicate that
  \<^verbatim>\<open>test\<close> computes. None of the patterns of the source has the \<^verbatim>\<open>g\<close> or \<^verbatim>\<open>y\<close> flag, under
  which \<^verbatim>\<open>test\<close> would keep a position between calls; the same is assumed of the patterns
  that the caller supplies.
\<close>

type_synonym regExp = "string \<Rightarrow> bool"

text \<open>\<^verbatim>\<open>/^.[/](?:[a-z0-9-]+)[.]workflowbundle[.]js$/\<close>: one character that is not a line
  terminator, a slash, a non-empty run of lower-case letters, digits and hyphens, and the
  literal suffix. The suffix starts with a dot, which the run cannot hold, so the run is
  all that stands between the slash and the last 18 characters.\<close>

definition lineTerminator :: "char \<Rightarrow> bool" where
  "lineTerminator c = (c = CHR 0x0A \<or> c = CHR 0x0D)"

definition isIdChar :: "char \<Rightarrow> bool" where
  "isIdChar c = (c \<in> set ''abcdefghijklmnopqrstuvwxyz0123456789-'')"

definition workflowBundlePattern :: regExp where
  "workflowBundlePattern s =
     (case s of
        c # d # rest \<Rightarrow>
          \<not> lineTerminator c \<and> d = CHR ''/'' \<and>
          length ''.workflowbundle.js'' < length rest \<and>
          drop (length rest - length ''.workflowbundle.js'') rest = ''.workflowbundle.js'' \<and>
          list_all isIdChar (take (length rest - length ''.workflowbundle.js'') rest)
      | _ \<Rightarrow> False)"

text \<open>\<^verbatim>\<open>/^@temporalio[/]core-bridge$/\<close>, \<^verbatim>\<open>/^@temporalio[/]proto$/\<close>, \<^verbatim>\<open>/^@temporalio[/]common$/\<close>\<close>

definition coreBridgePattern :: regExp where
  "coreBridgePattern s = (s = ''@temporalio/core-bridge'')"

definition protoPattern :: regExp where
  "protoPattern s = (s = ''@temporalio/proto'')"

definition commonPattern :: regExp where
  "commonPattern s = (s = ''@temporalio/common'')"

text \<open>The list built by the constructor; \<open>extra\<close> is \<^verbatim>\<open>(opts.externals ?? []).map(toRegExp)\<close>.\<close>

definition defaultExternalDepsPatterns :: "regExp list \<Rightarrow> regExp list" where
  "defaultExternalDepsPatterns extra =
     [workflowBundlePattern, coreBridgePattern, protoPattern, commonPattern] @ extra"

text \<open>\<^verbatim>\<open>patterns.some((pattern) => pattern.test(x))\<close>\<close>

definition someTest :: "regExp list \<Rightarrow> string \<Rightarrow> bool" where
  "someTest patterns x = list_ex (\<lambda>pattern. pattern x) patterns"

section \<open>toRegExp\<close>

text \<open>
  \<^verbatim>\<open>input.replace('[.?*+|\\([{^$]', '\\$&')\<close>: the first argument is a string, so
  \<^verbatim>\<open>replace\<close> looks for the first occurrence of these 14 characters as they stand, and
  puts in its place the replacement text, in which \<^verbatim>\<open>$&\<close> stands for what was matched.
\<close>

definition backslash :: char where
  "backslash = CHR 0x5C"

definition escapeSearchString :: string where
  "escapeSearchString = ''[.?*+|'' @ [backslash] @ ''([{^$]''"

fun replaceString :: "string \<Rightarrow> string \<Rightarrow> (string \<Rightarrow> string) \<Rightarrow> string" where
  "replaceString [] search replacement = (if search = [] then replacement [] else [])"
| "replaceString (c # cs) search replacement =
     (if startsWith (c # cs) search then replacement search @ drop (length search) (c # cs)
      else c # replaceString cs search replacement)"

text \<open>The text handed to \<^verbatim>\<open>new RegExp\<close> for a string input.\<close>

definition toRegExpSource :: "string \<Rightarrow> string" where
  "toRegExpSource input =
     ''^'' @ replaceString input escapeSearchString (\<lambda>matched. backslash # matched) @ ''$''"

datatype externalsOption = StringExternal string | RegExpExternal regExp | OtherExternal

text \<open>\<open>newRegExp\<close> is the constructor of the runtime, which throws on a malformed pattern.\<close>

definition toRegExp :: "(string \<Rightarrow> jsError + regExp) \<Rightarrow> externalsOption \<Rightarrow> jsError + regExp" where
  "toRegExp newRegExp input =
     (case input of
        RegExpExternal r \<Rightarrow> Inr r
      | StringExternal str \<Rightarrow> newRegExp (toRegExpSource str)
      | OtherExternal \<Rightarrow> Inl (Error ''Unsupported input type''))"

text \<open>
  A fragment of the pattern language, enough to run \<open>toRegExp\<close> on concrete strings:
  \<^verbatim>\<open>^\<close>, then ordinary characters, \<^verbatim>\<open>.\<close> and escaped syntax characters, then \<^verbatim>\<open>$\<close>.
  Outside the fragment the result is \<open>None\<close>.
\<close>

datatype atom = AnyChar | Literal char

definition syntaxChars :: string where
  "syntaxChars = ''^$'' @ [backslash] @ ''.*+?()[]{}|/''"

fun parseAtoms :: "string \<Rightarrow> atom list option" where
  "parseAtoms [] = None"
| "parseAtoms [c] = (if c = CHR ''$'' then Some [] else None)"
| "parseAtoms (c # d # ds) =
     (if c = backslash then
        (if d \<in> set syntaxChars then map_option (Cons (Literal d)) (parseAtoms ds) else None)
      else if c = CHR ''.'' then map_option (Cons AnyChar) (parseAtoms (d # ds))
      else if c \<in> set syntaxChars then None
      else map_option (Cons (Literal c)) (parseAtoms (d # ds)))"

fun matchAtoms :: "atom list \<Rightarrow> string \<Rightarrow> bool" where
  "matchAtoms [] s = (s = [])"
| "matchAtoms (a # as) [] = False"
| "matchAtoms (AnyChar # as) (c # cs) = (\<not> lineTerminator c \<and> matchAtoms as cs)"
| "matchAtoms (Literal d # as) (c # cs) = (c = d \<and> matchAtoms as cs)"

definition newRegExpFragment :: "string \<Rightarrow> regExp option" where
  "newRegExpFragment source =
     (case source of
        [] \<Rightarrow> None
      | c # cs \<Rightarrow> if c = CHR ''^'' then map_option matchAtoms (parseAtoms cs) else None)"

section \<open>The package boundary\<close>

text \<open>
  The file system as \<open>findPackageRoot\<close> and the classifier read it: \<^verbatim>\<open>statSync(p).isFile()\<close>,
  which throws where \<open>p\<close> does not exist; \<^verbatim>\<open>existsSync\<close>, which never throws; and
  \<^verbatim>\<open>require\<close> of a package descriptor, which throws or gives the name and the version,
  each as the string that \<^verbatim>\<open>test\<close>, the property access and the template convert it to.
\<close>

record fileSystem =
  statSyncIsFile :: "string \<Rightarrow> jsError + bool"
  existsSync :: "string \<Rightarrow> bool"
  requirePackageJson :: "string \<Rightarrow> jsError + (string \<times> string)"

text \<open>\<^verbatim>\<open>while (p !== '/') { if (existsSync(`${p}/package.json`)) return p; p = dirname(p); } return null;\<close>
  The walk need not end (on \<^verbatim>\<open>.\<close>, \<open>dirname\<close> returns \<^verbatim>\<open>.\<close>): \<open>None\<close> is a walk that goes on forever.\<close>

partial_function (option) findPackageRootLoop :: "fileSystem \<Rightarrow> string \<Rightarrow> string option option" where
  "findPackageRootLoop fs p =
     (if p = ''/'' then Some None
      else if existsSync fs (p @ ''/package.json'') then Some (Some p)
      else findPackageRootLoop fs (dirname p))"

declare findPackageRootLoop.simps [code]

definition findPackageRoot :: "fileSystem \<Rightarrow> string \<Rightarrow> (jsError + string option) option" where
  "findPackageRoot fs p =
     (case statSyncIsFile fs p of
        Inl e \<Rightarrow> Some (Inl e)
      | Inr isFile \<Rightarrow> map_option Inr (findPackageRootLoop fs (if isFile then dirname p else p)))"

section \<open>The state of a bundler\<close>

text \<open>
  The fields of the class that its methods change, and the calls and messages they leave
  behind: \<open>trace\<close> lists, oldest first, what the methods did to the compiler, the
  console and the disk. A written file holds either generated code or the manifest, kept
  as the object handed to \<^verbatim>\<open>JSON.stringify\<close>.
\<close>

record packageJson =
  dependencies :: "(string \<times> string) list"
  main :: string
  private' :: bool

datatype fileContent = Code string | Manifest packageJson

datatype event =
    CompilerCreated
  | RunStarted
  | RunCalledBack
  | CloseStarted
  | CloseCalledBack
  | ConsoleLog string
  | ConsoleError string
  | ConsoleInfo string
  | WorkflowCodeBundled string
  | FileWritten string fileContent

record bundler =
  entrypointPath :: string
  targetPath' :: string
  entrypointPackageRoot :: "string option"
  externalDepsPatterns :: "regExp list"
  workflowsBundles :: workflowsBundles
  packageJson :: packageJson
  trace :: "event list"

text \<open>How an asynchronous method ends: its promise is fulfilled, is rejected, or stays pending.\<close>

datatype 'a completion = Returned 'a | Raised jsError | NeverSettles

section \<open>The externalization classifier\<close>

datatype resolveResult = Rejected jsError | NotAString | ResolvedPath string

text \<open>\<^verbatim>\<open>obj[k] = v\<close> on a plain object: the key \<^verbatim>\<open>__proto__\<close> is the inherited accessor,
  whose setter ignores a string.\<close>

definition setProperty :: "string \<Rightarrow> string \<Rightarrow> (string \<times> string) list \<Rightarrow> (string \<times> string) list" where
  "setProperty k v obj = (if k = ''__proto__'' then obj else AList.update k v obj)"

text \<open>\<^verbatim>\<open>/^[.][.]?[/]/.test(request)\<close>\<close>

definition isRelativeRequest :: "string \<Rightarrow> bool" where
  "isRelativeRequest request = (startsWith request ''./'' \<or> startsWith request ''../'')"

definition unresolvedWarning :: "string \<Rightarrow> string" where
  "unresolvedWarning request =
     ''Warning: Failed to locate package.json for dependency '' @ request @ ''.'' @ [CHR 0x0A] @
     ''That dependency WILL NOT be added to the generated worker's package.json.'' @ [CHR 0x0A] @
     ''This could possibly cause missing dependencies at runtime.''"

text \<open>
  The reads of the \<^verbatim>\<open>try\<close> block: the request is resolved, the boundary of the resolved
  path is looked up, and the descriptor of a boundary that is neither missing nor the
  entrypoint's own is loaded. \<open>Some (Some (name, version))\<close> is such a descriptor;
  \<open>Some None\<close> is every way of leaving the block for the default logic, an exception
  caught (a rejected or unusable resolution, a failing \<^verbatim>\<open>statSync\<close> or \<^verbatim>\<open>require\<close>)
  or the condition of the \<^verbatim>\<open>if\<close> being false; \<open>None\<close> is a boundary walk that never ends.
\<close>

definition boundaryPackage ::
  "fileSystem \<Rightarrow> (string \<Rightarrow> string \<Rightarrow> resolveResult) \<Rightarrow> string option \<Rightarrow> string \<Rightarrow> string \<Rightarrow>
   (string \<times> string) option option" where
  "boundaryPackage fs getResolve entryRoot context request =
     (case getResolve context request of
        ResolvedPath resolvedPath \<Rightarrow>
          (case findPackageRoot fs resolvedPath of
             None \<Rightarrow> None
           | Some (Inl e) \<Rightarrow> Some None
           | Some (Inr packageRoot) \<Rightarrow>
               (case packageRoot of
                  None \<Rightarrow> Some None
                | Some root \<Rightarrow>
                    if root \<noteq> [] \<and> packageRoot \<noteq> entryRoot then
                      (case requirePackageJson fs (root @ ''/package.json'') of
                         Inl e \<Rightarrow> Some None
                       | Inr package \<Rightarrow> Some (Some package))
                    else Some None))
      | _ \<Rightarrow> Some None)"

text \<open>The code after the \<^verbatim>\<open>try\<close> block: the request string itself is tested.\<close>

definition defaultLogic :: "bundler \<Rightarrow> string \<Rightarrow> string option \<times> bundler" where
  "defaultLogic st request =
     (if someTest (externalDepsPatterns st) request then
        (Some (''commonjs '' @ request),
         if \<not> isRelativeRequest request
         then st\<lparr>trace := trace st @ [ConsoleLog (unresolvedWarning request)]\<rparr>
         else st)
      else (None, st))"

text \<open>The result is the externalization (\<open>None\<close> for \<^verbatim>\<open>undefined\<close>, the module is inlined)
  and the bundler after the call; the outer \<open>None\<close> is a call that never returns.\<close>

definition extractDependencies ::
  "fileSystem \<Rightarrow> (string \<Rightarrow> string \<Rightarrow> resolveResult) \<Rightarrow> bundler \<Rightarrow> string \<Rightarrow> string \<Rightarrow>
   (string option \<times> bundler) option" where
  "extractDependencies fs getResolve st context request =
     (case boundaryPackage fs getResolve (entrypointPackageRoot st) context request of
        None \<Rightarrow> None
      | Some (Some (packageName, packageVersion)) \<Rightarrow>
          if someTest (externalDepsPatterns st) packageName then
            Some (Some (''commonjs '' @ request),
                  st\<lparr>packageJson := (packageJson st)
                       \<lparr>dependencies := setProperty packageName packageVersion
                                          (dependencies (packageJson st))\<rparr>\<rparr>)
          else Some (None, st)
      | Some None \<Rightarrow> Some (defaultLogic st request))"

section \<open>The build\<close>

text \<open>
  What the bundler does not decide itself: the working directory, the file system, the
  resolver that webpack hands to the classifier, the calls webpack makes to the two hooks
  while it runs (in its own order), what it reports to the callbacks of \<^verbatim>\<open>run\<close> and
  \<^verbatim>\<open>close\<close> (\<open>None\<close>: the callback is never called), the workflow compiler, and whether a
  write fails.
\<close>

datatype hookCall = TransformCall string string | ExternalsCall string string

record stats =
  hasErrors :: bool
  toStringLines :: "string list"

record collaborators =
  processCwd :: string
  realFS :: fileSystem
  resolver :: "string \<Rightarrow> string \<Rightarrow> resolveResult"
  hookCalls :: "hookCall list"
  runCallback :: "(jsError option \<times> stats option) option"
  closeCallback :: "jsError option option"
  bundleWorkflowCode :: "string \<Rightarrow> string completion"
  writeFileSync :: "string \<Rightarrow> jsError option"

subsection \<open>The constructor\<close>

fun toRegExps :: "(string \<Rightarrow> jsError + regExp) \<Rightarrow> externalsOption list \<Rightarrow> jsError + regExp list" where
  "toRegExps newRegExp [] = Inr []"
| "toRegExps newRegExp (x # xs) =
     (case toRegExp newRegExp x of
        Inl e \<Rightarrow> Inl e
      | Inr r \<Rightarrow> (case toRegExps newRegExp xs of Inl e \<Rightarrow> Inl e | Inr rs \<Rightarrow> Inr (r # rs)))"

definition newBundler ::
  "fileSystem \<Rightarrow> (string \<Rightarrow> jsError + regExp) \<Rightarrow> string \<Rightarrow> string \<Rightarrow> externalsOption list \<Rightarrow>
   (jsError + bundler) option" where
  "newBundler files newRegExp entry target externals =
     (if \<not> isAbsolute entry then Some (Inl (Error ''entrypointPath must be absolute''))
      else
        (case findPackageRoot files entry of
           None \<Rightarrow> None
         | Some (Inl e) \<Rightarrow> Some (Inl e)
         | Some (Inr root) \<Rightarrow>
             (case toRegExps newRegExp externals of
                Inl e \<Rightarrow> Some (Inl e)
              | Inr extra \<Rightarrow>
                  Some (Inr \<lparr>entrypointPath = entry, targetPath' = target,
                             entrypointPackageRoot = root,
                             externalDepsPatterns = defaultExternalDepsPatterns extra,
                             workflowsBundles = [],
                             packageJson = \<lparr>dependencies = [], main = basename entry, private' = True\<rparr>,
                             trace = []\<rparr>))))"

subsection \<open>bundleWorker\<close>

text \<open>
  The calls that webpack makes to the two hooks while it runs. An exception of the
  rewriter goes to the loader that called it and leaves the bundler as it was; a call of
  the classifier that does not return stops the run.
\<close>

fun runHooks :: "collaborators \<Rightarrow> bundler \<Rightarrow> hookCall list \<Rightarrow> bundler option" where
  "runHooks w st [] = Some st"
| "runHooks w st (TransformCall workflowsPath filename # calls) =
     (case workflowsTransform (processCwd w) (workflowsBundles st) workflowsPath filename of
        Inl e \<Rightarrow> runHooks w st calls
      | Inr (tgt, t') \<Rightarrow> runHooks w (st\<lparr>workflowsBundles := t'\<rparr>) calls)"
| "runHooks w st (ExternalsCall context request # calls) =
     (case extractDependencies (realFS w) (resolver w) st context request of
        None \<Rightarrow> None
      | Some (externalization, st') \<Rightarrow> runHooks w st' calls)"

text \<open>
  The promise around \<^verbatim>\<open>compiler.run\<close>. The callback logs the lines of the statistics, and
  calls \<^verbatim>\<open>reject\<close> when they hold errors, then \<^verbatim>\<open>reject(err)\<close> or \<^verbatim>\<open>resolve()\<close>: the first call
  settles the promise.
\<close>

definition compilerRun :: "collaborators \<Rightarrow> bundler \<Rightarrow> unit completion \<times> bundler" where
  "compilerRun w st =
     (case runHooks w (st\<lparr>trace := trace st @ [RunStarted]\<rparr>) (hookCalls w) of
        None \<Rightarrow> (NeverSettles, st\<lparr>trace := trace st @ [RunStarted]\<rparr>)
      | Some st1 \<Rightarrow>
          (case runCallback w of
             None \<Rightarrow> (NeverSettles, st1)
           | Some (err, stats) \<Rightarrow>
               let hasError = (case stats of None \<Rightarrow> False | Some s \<Rightarrow> hasErrors s);
                   logged = (case stats of
                               None \<Rightarrow> []
                             | Some s \<Rightarrow> map (if hasError then ConsoleError else ConsoleInfo)
                                          (toStringLines s));
                   st2 = st1\<lparr>trace := trace st1 @ [RunCalledBack] @ logged\<rparr>
               in if hasError then (Raised (Error ''Webpack finished with errors.''), st2)
                  else (case err of Some e \<Rightarrow> (Raised e, st2) | None \<Rightarrow> (Returned (), st2))))"

text \<open>\<^verbatim>\<open>await util.promisify(compiler.close).bind(compiler)()\<close>\<close>

definition compilerClose :: "collaborators \<Rightarrow> bundler \<Rightarrow> unit completion \<times> bundler" where
  "compilerClose w st =
     (case closeCallback w of
        None \<Rightarrow> (NeverSettles, st\<lparr>trace := trace st @ [CloseStarted]\<rparr>)
      | Some None \<Rightarrow> (Returned (), st\<lparr>trace := trace st @ [CloseStarted, CloseCalledBack]\<rparr>)
      | Some (Some e) \<Rightarrow> (Raised e, st\<lparr>trace := trace st @ [CloseStarted, CloseCalledBack]\<rparr>))"

text \<open>
  \<^verbatim>\<open>try { await body } finally { await finalizer }\<close>: the finalizer runs once the body has
  settled, either way; its own failure replaces the outcome of the body.
\<close>

definition tryFinally ::
  "(bundler \<Rightarrow> unit completion \<times> bundler) \<Rightarrow> (bundler \<Rightarrow> unit completion \<times> bundler) \<Rightarrow>
   bundler \<Rightarrow> unit completion \<times> bundler" where
  "tryFinally body finalizer st =
     (case body st of
        (NeverSettles, st1) \<Rightarrow> (NeverSettles, st1)
      | (outcome, st1) \<Rightarrow>
          (case finalizer st1 of
             (Returned u, st2) \<Rightarrow> (outcome, st2)
           | (Raised e, st2) \<Rightarrow> (Raised e, st2)
           | (NeverSettles, st2) \<Rightarrow> (NeverSettles, st2)))"

definition bundleWorker :: "collaborators \<Rightarrow> bundler \<Rightarrow> unit completion \<times> bundler" where
  "bundleWorker w st =
     tryFinally (compilerRun w) (compilerClose w) (st\<lparr>trace := trace st @ [CompilerCreated]\<rparr>)"

subsection \<open>bundleWorkflows and generatePackageJson\<close>

text \<open>\<^verbatim>\<open>Object.values\<close>: the own properties whose keys are array indices come first, by
  increasing index, then the others in the order they were created.\<close>

definition isArrayIndex :: "string \<Rightarrow> bool" where
  "isArrayIndex k = (k = showNat (readNat k) \<and> readNat k < 2 ^ 32 - 1)"

definition objectValues :: "workflowsBundles \<Rightarrow> bundleDefinition list" where
  "objectValues t =
     map snd (sort_key (\<lambda>(k, e). readNat k) (filter (\<lambda>(k, e). isArrayIndex k) t) @
              filter (\<lambda>(k, e). \<not> isArrayIndex k) t)"

fun bundleWorkflowsLoop ::
  "collaborators \<Rightarrow> string \<Rightarrow> bundler \<Rightarrow> bundleDefinition list \<Rightarrow> unit completion \<times> bundler" where
  "bundleWorkflowsLoop w targetDirectory st [] = (Returned (), st)"
| "bundleWorkflowsLoop w targetDirectory st (bundleDefinition # rest) =
     (let st1 = st\<lparr>trace := trace st @
                   [ConsoleLog [],
                    ConsoleLog (''Preparing workflows bundle from directory: '' @
                                sourcePath bundleDefinition)]\<rparr>
      in case bundleWorkflowCode w (sourcePath bundleDefinition) of
           NeverSettles \<Rightarrow> (NeverSettles, st1)
         | Raised e \<Rightarrow> (Raised e, st1)
         | Returned code \<Rightarrow>
             let st2 = st1\<lparr>trace := trace st1 @ [WorkflowCodeBundled (sourcePath bundleDefinition)]\<rparr>;
                 targetFile = resolve (processCwd w) targetDirectory (targetPath bundleDefinition)
             in (case writeFileSync w targetFile of
                   Some e \<Rightarrow> (Raised e, st2)
                 | None \<Rightarrow>
                     bundleWorkflowsLoop w targetDirectory
                       (st2\<lparr>trace := trace st2 @ [FileWritten targetFile (Code code)]\<rparr>) rest))"

definition bundleWorkflows :: "collaborators \<Rightarrow> string \<Rightarrow> bundler \<Rightarrow> unit completion \<times> bundler" where
  "bundleWorkflows w targetDirectory st =
     bundleWorkflowsLoop w targetDirectory st (objectValues (workflowsBundles st))"

definition generatePackageJson :: "collaborators \<Rightarrow> string \<Rightarrow> bundler \<Rightarrow> unit completion \<times> bundler" where
  "generatePackageJson w targetDirectory st =
     (case writeFileSync w (targetDirectory @ ''/package.json'') of
        Some e \<Rightarrow> (Raised e, st)
      | None \<Rightarrow>
          (Returned (),
           st\<lparr>trace := trace st @
                 [FileWritten (targetDirectory @ ''/package.json'') (Manifest (packageJson st))]\<rparr>))"

subsection \<open>bundle\<close>

definition bundle' :: "collaborators \<Rightarrow> bundler \<Rightarrow> unit completion \<times> bundler" where
  "bundle' w st =
     (case bundleWorker w st of
        (Returned u, st1) \<Rightarrow>
          (case bundleWorkflows w (dirname (targetPath' st1)) st1 of
             (Returned u', st2) \<Rightarrow> generatePackageJson w (dirname (targetPath' st2)) st2
           | failed \<Rightarrow> failed)
      | failed \<Rightarrow> failed)"

subsection \<open>What a run records\<close>

text \<open>The packages that the calls of a run resolve to a boundary and externalize, in call order.\<close>

fun recordedPackages :: "collaborators \<Rightarrow> bundler \<Rightarrow> hookCall list \<Rightarrow> (string \<times> string) list" where
  "recordedPackages w st [] = []"
| "recordedPackages w st (TransformCall workflowsPath filename # calls) = recordedPackages w st calls"
| "recordedPackages w st (ExternalsCall context request # calls) =
     (case boundaryPackage (realFS w) (resolver w) (entrypointPackageRoot st) context request of
        Some (Some (packageName, packageVersion)) \<Rightarrow>
          if someTest (externalDepsPatterns st) packageName
          then (packageName, packageVersion) # recordedPackages w st calls
          else recordedPackages w st calls
      | _ \<Rightarrow> recordedPackages w st calls)"

definition isConsoleLog :: "event \<Rightarrow> bool" where
  "isConsoleLog e = (case e of ConsoleLog m \<Rightarrow> True | _ \<Rightarrow> False)"

definition sameSetup :: "bundler \<Rightarrow> bundler \<Rightarrow> bool" where
  "sameSetup st st' \<longleftrightarrow>
     entrypointPath st' = entrypointPath st \<and> targetPath' st' = targetPath' st \<and>
     entrypointPackageRoot st' = entrypointPackageRoot st \<and>
     externalDepsPatterns st' = externalDepsPatterns st \<and>
     main (packageJson st') = main (packageJson st) \<and>
     private' (packageJson st') = private' (packageJson st)"

section \<open>An example project\<close>

text \<open>
  A small installation on which the model is run: an application in \<^verbatim>\<open>/app\<close> with its
  entrypoint \<^verbatim>\<open>/app/src/worker.ts\<close>, a workflow bundle left beside it by an earlier build,
  and two copies of \<^verbatim>\<open>@temporalio/common\<close> in \<^verbatim>\<open>node_modules\<close>, the second nested under
  \<^verbatim>\<open>@temporalio/worker\<close> with another version.
\<close>

definition exampleFiles :: "string list" where
  "exampleFiles =
     [''/app/package.json'',
      ''/app/src/worker.ts'',
      ''/app/src/wf.workflowbundle.js'',
      ''/app/node_modules/@temporalio/common/package.json'',
      ''/app/node_modules/@temporalio/common/index.js'',
      ''/app/node_modules/@temporalio/worker/package.json'',
      ''/app/node_modules/@temporalio/worker/index.js'',
      ''/app/node_modules/@temporalio/worker/node_modules/@temporalio/common/package.json'',
      ''/app/node_modules/@temporalio/worker/node_modules/@temporalio/common/index.js'']"

definition exampleIsDirectory :: "string \<Rightarrow> bool" where
  "exampleIsDirectory p = list_ex (\<lambda>f. startsWith f (p @ ''/'')) exampleFiles"

definition exampleStat :: "string \<Rightarrow> jsError + bool" where
  "exampleStat p =
     (if p \<in> set exampleFiles then Inr True
      else if exampleIsDirectory p then Inr False
      else Inl (Error ''ENOENT''))"

definition exampleExists :: "string \<Rightarrow> bool" where
  "exampleExists p = (p \<in> set exampleFiles \<or> exampleIsDirectory p)"

definition exampleRequire :: "string \<Rightarrow> jsError + (string \<times> string)" where
  "exampleRequire p =
     (if p = ''/app/package.json'' then Inr (''app'', ''0.1.0'')
      else if p = ''/app/node_modules/@temporalio/common/package.json''
        then Inr (''@temporalio/common'', ''1.0.0'')
      else if p = ''/app/node_modules/@temporalio/worker/package.json''
        then Inr (''@temporalio/worker'', ''1.1.0'')
      else if p = ''/app/node_modules/@temporalio/worker/node_modules/@temporalio/common/package.json''
        then Inr (''@temporalio/common'', ''1.1.0'')
      else Inl (Error ''MODULE_NOT_FOUND''))"

definition exampleFS :: fileSystem where
  "exampleFS =
     \<lparr>statSyncIsFile = exampleStat, existsSync = exampleExists, requirePackageJson = exampleRequire\<rparr>"

definition exampleResolve :: "string \<Rightarrow> string \<Rightarrow> resolveResult" where
  "exampleResolve context request =
     (if context = ''/app/src'' \<and> request = ''@temporalio/common''
        then ResolvedPath ''/app/node_modules/@temporalio/common/index.js''
      else if context = ''/app/src'' \<and> request = ''@temporalio/worker''
        then ResolvedPath ''/app/node_modules/@temporalio/worker/index.js''
      else if context = ''/app/node_modules/@temporalio/worker'' \<and> request = ''@temporalio/common''
        then ResolvedPath ''/app/node_modules/@temporalio/worker/node_modules/@temporalio/common/index.js''
      else if context = ''/app/src'' \<and> request = ''./wf.workflowbundle.js''
        then ResolvedPath ''/app/src/wf.workflowbundle.js''
      else Rejected (Error ''Module not found''))"

definition exampleBundler :: bundler where
  "exampleBundler =
     \<lparr>entrypointPath = ''/app/src/worker.ts'', targetPath' = ''/app/dist/worker.js'',
      entrypointPackageRoot = Some ''/app'',
      externalDepsPatterns = defaultExternalDepsPatterns [],
      workflowsBundles = [],
      packageJson = \<lparr>dependencies = [], main = ''worker.ts'', private' = True\<rparr>,
      trace = []\<rparr>"

definition exampleWorld :: collaborators where
  "exampleWorld =
     \<lparr>processCwd = ''/app'', realFS = exampleFS, resolver = exampleResolve,
      hookCalls =
        [TransformCall ''./workflows'' ''/app/src/worker.ts'',
         ExternalsCall ''/app/src'' ''@temporalio/worker'',
         ExternalsCall ''/app/src'' ''@temporalio/common'',
         ExternalsCall ''/app/node_modules/@temporalio/worker'' ''@temporalio/common'',
         ExternalsCall ''/app/src'' ''@temporalio/proto'',
         ExternalsCall ''/app/src'' ''./workflows.workflowbundle.js''],
      runCallback = Some (None, Some \<lparr>hasErrors = False, toStringLines = [''compiled successfully'']\<rparr>),
      closeCallback = Some None,
      bundleWorkflowCode = (\<lambda>workflowsPath. Returned ''module.exports = {}''),
      writeFileSync = (\<lambda>file. None)\<rparr>"

definition exampleFailingWorld :: collaborators where
  "exampleFailingWorld =
     exampleWorld\<lparr>runCallback :=
       Some (None, Some \<lparr>hasErrors = True, toStringLines = [''ERROR in ./src/worker.ts'']\<rparr>)\<rparr>"

section \<open>Properties of the rewriter\<close>

subsection \<open>The collision loop\<close>

lemma resolveCollision_free: "\<not> collides t (resolveCollision t src base wid s) src"
  by (induction t src base wid s rule: resolveCollision.induct)
     (subst resolveCollision.simps, simp)

lemma resolveCollision_shape:
  "resolveCollision t src base wid s = wid \<or>
   (collides t wid src \<and>
    (\<exists>k\<ge>s. resolveCollision t src base wid s = suffixedId base k \<and>
       (\<forall>j. s \<le> j \<and> j < k \<longrightarrow> collides t (suffixedId base j) src)))"
proof (induction t src base wid s rule: resolveCollision.induct)
  case (1 t src base wid s)
  show ?case
  proof (cases "collides t wid src")
    case False
    then show ?thesis by (subst resolveCollision.simps) simp
  next
    case True
    let ?r = "resolveCollision t src base (suffixedId base s) (Suc s)"
    have eq: "resolveCollision t src base wid s = ?r"
      using True by (subst resolveCollision.simps) simp
    from 1 [OF True] consider (a) "?r = suffixedId base s"
      | (b) k where "collides t (suffixedId base s) src" "Suc s \<le> k" "?r = suffixedId base k"
          "\<forall>j. Suc s \<le> j \<and> j < k \<longrightarrow> collides t (suffixedId base j) src"
      by blast
    then show ?thesis
    proof cases
      case a
      then show ?thesis using True eq by auto
    next
      case b
      have "\<forall>j. s \<le> j \<and> j < k \<longrightarrow> collides t (suffixedId base j) src"
        using b(1,4) by (metis Suc_leI le_neq_implies_less)
      then show ?thesis using True eq b(2,3) by (metis Suc_leD)
    qed
  qed
qed

lemma resolveCollision_stable:
  assumes "\<And>k. collides t k src \<Longrightarrow> collides t' k src"
      and "\<not> collides t' (resolveCollision t src base wid s) src"
  shows "resolveCollision t' src base wid s = resolveCollision t src base wid s"
  using assms
proof (induction t src base wid s rule: resolveCollision.induct)
  case (1 t src base wid s)
  show ?case
  proof (cases "collides t wid src")
    case True
    then have c': "collides t' wid src" by (rule 1(2))
    have "resolveCollision t' src base (suffixedId base s) (Suc s) = resolveCollision t src base (suffixedId base s) (Suc s)"
      using 1(1) [OF True 1(2)] 1(3) True by (subst (asm) (2) resolveCollision.simps) simp
    then show ?thesis using True c' by (subst resolveCollision.simps, subst (2) resolveCollision.simps) simp
  next
    case False
    then have r: "resolveCollision t src base wid s = wid" by (subst resolveCollision.simps) simp
    with 1(3) have "\<not> collides t' wid src" by simp
    then show ?thesis using r by (subst resolveCollision.simps) simp
  qed
qed

subsection \<open>How the table evolves\<close>

lemma targetPathOf_inj: "targetPathOf a = targetPathOf b \<Longrightarrow> a = b"
  by (simp add: targetPathOf_def)

lemma workflowsTransform_Inr:
  assumes "workflowsTransform cwd t wp f = Inr (tp, t')"
  obtains wid where
    "wid = resolveCollision t (resolve cwd (dirname f) wp) (baseWorkflowsBundleId wp) (baseWorkflowsBundleId wp) 1"
    "tp = targetPathOf wid"
    "t' = AList.update wid \<lparr>sourcePath = resolve cwd (dirname f) wp, targetPath = targetPathOf wid\<rparr> t"
    "\<not> collides t wid (resolve cwd (dirname f) wp)"
  using assms resolveCollision_free
  by (auto simp: workflowsTransform_def Let_def split: if_splits)

lemma keyIn_update: "keyIn k (AList.update w e t) \<longleftrightarrow> k = w \<or> keyIn k t"
  by (auto simp: keyIn_def AList.dom_update)

lemma collides_update:
  assumes "\<not> collides t w (sourcePath e)" and "collides t k s"
  shows "collides (AList.update w e t) k s"
proof (cases "k = w")
  case False
  then show ?thesis using assms(2) by (simp add: collides_def keyIn_update AList.update_conv')
next
  case True
  then show ?thesis using assms
    by (auto simp: collides_def keyIn_update AList.update_conv' split: option.splits)
qed

lemma workflowsTransform_collides_mono:
  assumes "workflowsTransform cwd t wp f = Inr (tp, t')" and "collides t k s"
  shows "collides t' k s"
proof -
  from assms(1) obtain wid where
    t': "t' = AList.update wid \<lparr>sourcePath = resolve cwd (dirname f) wp, targetPath = targetPathOf wid\<rparr> t"
    and free: "\<not> collides t wid (resolve cwd (dirname f) wp)"
    by (rule workflowsTransform_Inr)
  show ?thesis unfolding t' by (rule collides_update) (use free assms(2) in simp_all)
qed

lemma workflowsTransform_keeps_entry:
  assumes "workflowsTransform cwd t wp f = Inr (tp, t')"
      and "map_of t k = Some \<lparr>sourcePath = s, targetPath = targetPathOf k\<rparr>"
  shows "map_of t' k = Some \<lparr>sourcePath = s, targetPath = targetPathOf k\<rparr>"
proof -
  from assms(1) obtain wid where
    t': "t' = AList.update wid \<lparr>sourcePath = resolve cwd (dirname f) wp, targetPath = targetPathOf wid\<rparr> t"
    and free: "\<not> collides t wid (resolve cwd (dirname f) wp)"
    by (rule workflowsTransform_Inr)
  show ?thesis
  proof (cases "k = wid")
    case False
    then show ?thesis using assms(2) by (simp add: t' AList.update_conv')
  next
    case True
    have "keyIn wid t" using assms(2) True by (auto simp: keyIn_def dest: map_of_SomeD intro: rev_image_eqI)
    with free assms(2) True have "s = resolve cwd (dirname f) wp"
      by (simp add: collides_def)
    then show ?thesis using True by (simp add: t' AList.update_conv')
  qed
qed

lemma workflowsTransformAll_collides_mono:
  "collides t k s \<Longrightarrow> collides (workflowsTransformAll cwd t refs) k s"
proof (induction refs arbitrary: t)
  case Nil
  then show ?case by simp
next
  case (Cons r refs)
  obtain wp f where r: "r = (wp, f)" by (cases r)
  show ?case
  proof (cases "workflowsTransform cwd t wp f")
    case (Inl e)
    then show ?thesis using Cons by (simp add: r)
  next
    case (Inr res)
    obtain tp t' where res: "res = (tp, t')" by (cases res)
    have "collides t' k s" using Inr Cons.prems unfolding res by (rule workflowsTransform_collides_mono)
    then show ?thesis using Inr Cons.IH by (simp add: r res)
  qed
qed

lemma workflowsTransformAll_keeps_entry:
  "map_of t k = Some \<lparr>sourcePath = s, targetPath = targetPathOf k\<rparr> \<Longrightarrow>
   map_of (workflowsTransformAll cwd t refs) k = Some \<lparr>sourcePath = s, targetPath = targetPathOf k\<rparr>"
proof (induction refs arbitrary: t)
  case Nil
  then show ?case by simp
next
  case (Cons r refs)
  obtain wp f where r: "r = (wp, f)" by (cases r)
  show ?case
  proof (cases "workflowsTransform cwd t wp f")
    case (Inl e)
    then show ?thesis using Cons by (simp add: r)
  next
    case (Inr res)
    obtain tp t' where res: "res = (tp, t')" by (cases res)
    have "map_of t' k = Some \<lparr>sourcePath = s, targetPath = targetPathOf k\<rparr>"
      using Inr Cons.prems unfolding res by (rule workflowsTransform_keeps_entry)
    then show ?thesis using Inr Cons.IH by (simp add: r res)
  qed
qed

lemma present_not_collides:
  "map_of t k = Some e \<Longrightarrow> collides t k s \<longleftrightarrow> sourcePath e \<noteq> s"
  by (auto simp: collides_def keyIn_def dest: map_of_SomeD intro: rev_image_eqI)

lemma update_new_entriesFor:
  assumes "entriesFor t s = []" and "\<not> collides t w s"
  shows "entriesFor (AList.update w \<lparr>sourcePath = s, targetPath = p\<rparr> t) s = [(w, \<lparr>sourcePath = s, targetPath = p\<rparr>)]"
proof -
  have "w \<notin> fst ` set t"
  proof
    assume "w \<in> fst ` set t"
    then obtain e where e: "map_of t w = Some e"
      by (metis map_of_eq_None_iff not_Some_eq)
    with assms(2) have "sourcePath e = s" by (simp add: present_not_collides)
    moreover have "(w, e) \<in> set t" using e by (rule map_of_SomeD)
    ultimately have "(w, e) \<in> set (entriesFor t s)" by (simp add: entriesFor_def)
    with assms(1) show False by simp
  qed
  then have "AList.update w \<lparr>sourcePath = s, targetPath = p\<rparr> t = t @ [(w, \<lparr>sourcePath = s, targetPath = p\<rparr>)]"
    by (induction t) auto
  then show ?thesis using assms(1) by (simp add: entriesFor_def)
qed


subsection \<open>References that are not relative\<close>

text \<open>The check is the first statement of the hook: the call throws before it resolves a
  path or touches the table. What webpack makes of the exception is not the hook's to
  decide.\<close>

lemma workflowsTransform_rejects_non_relative:
  "\<not> startsWith wp ''./'' \<Longrightarrow> \<not> startsWith wp ''../'' \<Longrightarrow>
   workflowsTransform cwd t wp f = Inl (Error ''workflowsPath must be relative'')"
  by (simp add: workflowsTransform_def)

subsection \<open>The identifier is never the prototype accessor\<close>

lemma replaceFirstRun_head:
  "replaceFirstRun s = [] \<or> isAlnum (hd (replaceFirstRun s)) \<or>
   (\<exists>r. replaceFirstRun s = CHR ''-'' # r \<and> (r = [] \<or> isAlnum (hd r)))"
proof (cases s)
  case Nil
  then show ?thesis by simp
next
  case (Cons c cs)
  show ?thesis
  proof (cases "isAlnum c")
    case True
    then show ?thesis using Cons by simp
  next
    case False
    have "dropWhile (\<lambda>x. \<not> isAlnum x) cs = [] \<or> isAlnum (hd (dropWhile (\<lambda>x. \<not> isAlnum x) cs))"
      using hd_dropWhile [of "\<lambda>x. \<not> isAlnum x" cs] by blast
    then show ?thesis using Cons False by simp
  qed
qed

lemma hyphen_not_alnum: "\<not> isAlnum (CHR ''-'')"
  by (simp add: isAlnum_def)

lemma stripLeadingHyphen_head:
  "stripLeadingHyphen (replaceFirstRun s) = [] \<or> isAlnum (hd (stripLeadingHyphen (replaceFirstRun s)))"
  using replaceFirstRun_head [of s]
  by (auto simp: stripLeadingHyphen_def hyphen_not_alnum split: list.splits)

lemma stripTrailingHyphen_head:
  assumes "s = [] \<or> isAlnum (hd s)"
  shows "stripTrailingHyphen s = [] \<or> isAlnum (hd (stripTrailingHyphen s))"
proof (cases "s \<noteq> [] \<and> last s = CHR ''-''")
  case False
  then show ?thesis using assms by (auto simp: stripTrailingHyphen_def)
next
  case True
  then obtain c cs where s: "s = c # cs" by (cases s) auto
  with assms have c: "isAlnum c" by simp
  have "cs \<noteq> []" using True c s hyphen_not_alnum by auto
  then show ?thesis using True s c by (simp add: stripTrailingHyphen_def)
qed

lemma baseWorkflowsBundleId_head:
  "baseWorkflowsBundleId wp = [] \<or> isAlnum (hd (baseWorkflowsBundleId wp))"
  unfolding baseWorkflowsBundleId_def by (rule stripTrailingHyphen_head) (rule stripLeadingHyphen_head)

lemma showNat_last_digit: "showNat n \<noteq> [] \<and> last (showNat n) \<in> set ''0123456789''"
proof -
  have d: "digitChar d \<in> set ''0123456789''" if "d < 10" for d
    using that unfolding digitChar_def by (auto simp: less_Suc_eq numeral_nat nth_Cons')
  show ?thesis
    by (subst (1 2) showNat.simps) (simp add: d del: set_simps list.set)
qed

lemma workflowsBundleId_not_proto:
  "resolveCollision t src (baseWorkflowsBundleId wp) (baseWorkflowsBundleId wp) 1 \<noteq> ''__proto__''"
proof -
  let ?b = "baseWorkflowsBundleId wp"
  have base: "?b \<noteq> ''__proto__''"
    using baseWorkflowsBundleId_head [of wp] by (auto simp: isAlnum_def)
  have suf: "suffixedId ?b k \<noteq> ''__proto__''" for k
  proof
    assume "suffixedId ?b k = ''__proto__''"
    then have "last (suffixedId ?b k) = CHR ''_''" by simp
    moreover have "last (suffixedId ?b k) = last (showNat k)"
      using showNat_last_digit [of k] by (simp add: suffixedId_def)
    ultimately show False using showNat_last_digit [of k] by auto
  qed
  from resolveCollision_shape [of t src ?b ?b 1] base suf show ?thesis by metis
qed

section \<open>Properties of the package boundary\<close>

lemma dropWhile_notSlash_shorter:
  "r \<noteq> [] \<Longrightarrow> \<not> isSlash (hd r) \<Longrightarrow> length (dropWhile (\<lambda>c. \<not> isSlash c) r) < length r"
  by (cases r) (auto intro: le_imp_less_Suc length_dropWhile_le)

lemma dirname_scan_length:
  "dirname_scan p \<noteq> [] \<Longrightarrow> Suc (length (dirname_scan p)) < length p"
proof -
  assume ne: "dirname_scan p \<noteq> []"
  let ?r = "dropWhile isSlash (rev (tl p))"
  have r: "?r \<noteq> []"
  proof
    assume "?r = []"
    then have "dirname_scan p = []" unfolding dirname_scan_def by (simp only: dropWhile.simps)
    with ne show False by simp
  qed
  then have "\<not> isSlash (hd ?r)" by (rule hd_dropWhile)
  with r have "length (dirname_scan p) < length ?r"
    unfolding dirname_scan_def by (rule dropWhile_notSlash_shorter)
  also have "\<dots> \<le> length (rev (tl p))" by (rule length_dropWhile_le)
  finally have "length (dirname_scan p) < length p - 1" by simp
  then show ?thesis by simp
qed

lemma dirname_absolute:
  assumes "isAbsolute p" and "p \<noteq> ''/''"
  shows "isAbsolute (dirname p) \<and> length (dirname p) < length p"
proof -
  from assms(1) obtain cs where p: "p = CHR ''/'' # cs"
    by (auto simp: isAbsolute_def isSlash_def split: list.splits)
  with assms(2) have cs: "cs \<noteq> []" by auto
  show ?thesis
  proof (cases "dirname_scan p = []")
    case True
    then show ?thesis using p cs by (simp add: dirname_def isAbsolute_def isSlash_def)
  next
    case False
    from dirname_scan_length [OF False] have len: "Suc (length (dirname_scan p)) < length p" .
    show ?thesis
    proof (cases "length (dirname_scan p) = 1")
      case True
      then show ?thesis using p len by (simp add: dirname_def isAbsolute_def isSlash_def Let_def)
    next
      case False
      with \<open>dirname_scan p \<noteq> []\<close> obtain n where n: "length (dirname_scan p) = Suc (Suc n)"
        by (cases "dirname_scan p"; cases "tl (dirname_scan p)") auto
      have "dirname p = take (Suc (Suc n)) p"
        using p n by (simp add: dirname_def Let_def)
      then show ?thesis using p len n by (simp add: isAbsolute_def isSlash_def)
    qed
  qed
qed

lemma dirname_relative:
  assumes "\<not> isAbsolute p"
  shows "\<not> isAbsolute (dirname p)"
proof (cases p)
  case Nil
  then show ?thesis by (simp add: dirname_def isAbsolute_def isSlash_def)
next
  case (Cons c cs)
  with assms have c: "\<not> isSlash c" by (simp add: isAbsolute_def)
  show ?thesis
  proof (cases "dirname_scan p = []")
    case True
    then show ?thesis using Cons c by (simp add: dirname_def isAbsolute_def isSlash_def)
  next
    case False
    then have "length (dirname_scan p) > 0" by simp
    then show ?thesis using Cons c False
      by (cases "length (dirname_scan p)") (auto simp: dirname_def isAbsolute_def Let_def)
  qed
qed

lemma findPackageRootLoop_terminates:
  "isAbsolute p \<Longrightarrow>
   \<exists>r. findPackageRootLoop fs p = Some r \<and>
       (case r of None \<Rightarrow> True | Some d \<Rightarrow> isAbsolute d \<and> existsSync fs (d @ ''/package.json''))"
proof (induction "length p" arbitrary: p rule: less_induct)
  case less
  show ?case
  proof (cases "p = ''/''")
    case True
    then show ?thesis by (subst findPackageRootLoop.simps) simp
  next
    case root: False
    show ?thesis
    proof (cases "existsSync fs (p @ ''/package.json'')")
      case True
      then show ?thesis using root less.prems by (subst findPackageRootLoop.simps) simp
    next
      case False
      from dirname_absolute [OF less.prems root]
      have "isAbsolute (dirname p)" "length (dirname p) < length p" by simp_all
      from less.hyps [OF this(2) this(1)] show ?thesis
        using root False by (subst findPackageRootLoop.simps) simp
    qed
  qed
qed

lemma findPackageRootLoop_relative:
  assumes "findPackageRootLoop fs p = Some r" and "\<not> isAbsolute p"
  shows "\<exists>d. r = Some d \<and> existsSync fs (d @ ''/package.json'')"
  using assms
proof (induction rule: findPackageRootLoop.raw_induct [rotated 1, consumes 1])
  case (1 loop fs p r)
  have notroot: "p \<noteq> ''/''" using 1(3) by (auto simp: isAbsolute_def isSlash_def)
  show ?case
  proof (cases "existsSync fs (p @ ''/package.json'')")
    case True
    then show ?thesis using 1(2) notroot by auto
  next
    case False
    then have "loop fs (dirname p) = Some r" using 1(2) notroot by simp
    moreover have "\<not> isAbsolute (dirname p)" using 1(3) by (rule dirname_relative)
    ultimately show ?thesis by (rule 1(1))
  qed
qed

text \<open>Where no descriptor exists at all, the walk from a relative path goes on forever.\<close>

lemma findPackageRootLoop_relative_diverges:
  assumes "\<not> isAbsolute p" and "\<And>q. \<not> existsSync files q"
  shows "findPackageRootLoop files p = None"
proof (cases "findPackageRootLoop files p")
  case None
  then show ?thesis .
next
  case (Some r)
  from findPackageRootLoop_relative [OF Some assms(1)] assms(2) show ?thesis by blast
qed

section \<open>Properties of the build\<close>

lemma sameSetup_refl: "sameSetup st st"
  by (simp add: sameSetup_def)

lemma sameSetup_trans: "sameSetup a b \<Longrightarrow> sameSetup b c \<Longrightarrow> sameSetup a c"
  by (simp add: sameSetup_def)

lemma extractDependencies_effect:
  assumes "extractDependencies files getResolve st context request = Some (r, st')"
  shows "sameSetup st st'"
    and "\<exists>logs. trace st' = trace st @ logs \<and> list_all isConsoleLog logs"
    and "dependencies (packageJson st') =
          (case boundaryPackage files getResolve (entrypointPackageRoot st) context request of
             Some (Some (packageName, packageVersion)) \<Rightarrow>
               if someTest (externalDepsPatterns st) packageName
               then setProperty packageName packageVersion (dependencies (packageJson st))
               else dependencies (packageJson st)
           | _ \<Rightarrow> dependencies (packageJson st))"
  using assms
  by (auto simp: extractDependencies_def defaultLogic_def sameSetup_def isConsoleLog_def
           split: option.splits if_splits prod.splits)

lemma recordedPackages_cong:
  assumes "entrypointPackageRoot a = entrypointPackageRoot b"
      and "externalDepsPatterns a = externalDepsPatterns b"
  shows "recordedPackages w a calls = recordedPackages w b calls"
proof (induction calls)
  case Nil
  then show ?case by simp
next
  case (Cons c calls)
  then show ?case using assms by (cases c) (simp_all split: option.splits)
qed

lemma runHooks_effect:
  assumes "runHooks w st calls = Some st'"
  shows "sameSetup st st' \<and>
         (\<exists>logs. trace st' = trace st @ logs \<and> list_all isConsoleLog logs) \<and>
         dependencies (packageJson st') =
           fold (\<lambda>(n, v). setProperty n v) (recordedPackages w st calls) (dependencies (packageJson st))"
  using assms
proof (induction calls arbitrary: st)
  case Nil
  then show ?case by (simp add: sameSetup_refl)
next
  case (Cons c calls)
  show ?case
  proof (cases c)
    case (TransformCall wp fn)
    show ?thesis
    proof (cases "workflowsTransform (processCwd w) (workflowsBundles st) wp fn")
      case (Inl e)
      then show ?thesis using Cons TransformCall by simp
    next
      case (Inr res)
      obtain tgt t' where res: "res = (tgt, t')" by (cases res)
      let ?st1 = "st\<lparr>workflowsBundles := t'\<rparr>"
      have run: "runHooks w ?st1 calls = Some st'"
        using Cons.prems TransformCall Inr res by simp
      have same: "sameSetup st ?st1" by (simp add: sameSetup_def)
      have rec: "recordedPackages w ?st1 calls = recordedPackages w st calls"
        by (rule recordedPackages_cong) simp_all
      from Cons.IH [OF run] same rec show ?thesis
        using TransformCall by (auto intro: sameSetup_trans)
    qed
  next
    case (ExternalsCall ctx req)
    from Cons.prems ExternalsCall obtain r st1 where
      step: "extractDependencies (realFS w) (resolver w) st ctx req = Some (r, st1)"
      and run: "runHooks w st1 calls = Some st'"
      by (auto split: option.splits)
    note eff = extractDependencies_effect [OF step]
    have cfg: "entrypointPackageRoot st1 = entrypointPackageRoot st"
              "externalDepsPatterns st1 = externalDepsPatterns st"
      using eff(1) by (simp_all add: sameSetup_def)
    have rec: "recordedPackages w st1 calls = recordedPackages w st calls"
      using cfg by (rule recordedPackages_cong)
    from eff(2) obtain logs1 where l1: "trace st1 = trace st @ logs1" "list_all isConsoleLog logs1" by blast
    from Cons.IH [OF run] obtain logs2 where
      ih: "sameSetup st1 st'" "trace st' = trace st1 @ logs2" "list_all isConsoleLog logs2"
        "dependencies (packageJson st') =
           fold (\<lambda>(n, v). setProperty n v) (recordedPackages w st1 calls) (dependencies (packageJson st1))"
      by blast
    have tr: "trace st' = trace st @ (logs1 @ logs2) \<and> list_all isConsoleLog (logs1 @ logs2)"
      using l1 ih(2,3) by simp
    have deps: "dependencies (packageJson st') =
           fold (\<lambda>(n, v). setProperty n v) (recordedPackages w st (c # calls)) (dependencies (packageJson st))"
      using ih(4) eff(3) rec ExternalsCall
      by (auto split: option.splits)
    from sameSetup_trans [OF eff(1) ih(1)] tr deps show ?thesis by blast
  qed
qed

lemma compilerRun_effect:
  assumes "compilerRun w st = (outcome, st')" and "outcome \<noteq> NeverSettles"
  shows "sameSetup st st' \<and>
         dependencies (packageJson st') =
           fold (\<lambda>(n, v). setProperty n v) (recordedPackages w st (hookCalls w)) (dependencies (packageJson st)) \<and>
         (\<exists>during. trace st' = trace st @ [RunStarted] @ during \<and>
            RunCalledBack \<in> set during \<and> CloseStarted \<notin> set during)"
proof -
  let ?st0 = "st\<lparr>trace := trace st @ [RunStarted]\<rparr>"
  from assms obtain st1 where run: "runHooks w ?st0 (hookCalls w) = Some st1"
    by (auto simp: compilerRun_def split: option.splits)
  from assms run obtain err stats where cb: "runCallback w = Some (err, stats)"
    by (auto simp: compilerRun_def split: option.splits)
  define logged where "logged =
    (case stats of None \<Rightarrow> [] | Some s \<Rightarrow> map (if hasErrors s then ConsoleError else ConsoleInfo) (toStringLines s))"
  have st': "st' = st1\<lparr>trace := trace st1 @ [RunCalledBack] @ logged\<rparr>"
    using assms(1) run cb
    by (auto simp: compilerRun_def Let_def logged_def split: option.splits if_splits)
  from runHooks_effect [OF run] obtain logs where
    eff: "sameSetup ?st0 st1" "trace st1 = trace ?st0 @ logs" "list_all isConsoleLog logs"
      "dependencies (packageJson st1) =
         fold (\<lambda>(n, v). setProperty n v) (recordedPackages w ?st0 (hookCalls w)) (dependencies (packageJson ?st0))"
    by blast
  have rec: "recordedPackages w ?st0 (hookCalls w) = recordedPackages w st (hookCalls w)"
    by (rule recordedPackages_cong) simp_all
  have same: "sameSetup st st'" using eff(1) by (simp add: st' sameSetup_def)
  have deps: "dependencies (packageJson st') =
           fold (\<lambda>(n, v). setProperty n v) (recordedPackages w st (hookCalls w)) (dependencies (packageJson st))"
    using eff(4) rec by (simp add: st')
  have nologs: "CloseStarted \<notin> set logs"
    using eff(3) by (auto simp: list_all_iff isConsoleLog_def)
  have nologged: "CloseStarted \<notin> set logged"
    by (auto simp: logged_def split: option.splits)
  have "trace st' = trace st @ [RunStarted] @ (logs @ [RunCalledBack] @ logged)"
    using eff(2) by (simp add: st')
  moreover have "RunCalledBack \<in> set (logs @ [RunCalledBack] @ logged)" by simp
  moreover have "CloseStarted \<notin> set (logs @ [RunCalledBack] @ logged)"
    using nologs nologged by simp
  ultimately show ?thesis using same deps by blast
qed

lemma bundleWorker_effect:
  assumes "bundleWorker w st = (outcome, st')" and "outcome \<noteq> NeverSettles"
  shows "sameSetup st st' \<and>
         dependencies (packageJson st') =
           fold (\<lambda>(n, v). setProperty n v) (recordedPackages w st (hookCalls w)) (dependencies (packageJson st)) \<and>
         (\<exists>during. trace st' = trace st @ [CompilerCreated, RunStarted] @ during @ [CloseStarted, CloseCalledBack] \<and>
            RunCalledBack \<in> set during \<and> CloseStarted \<notin> set during)"
proof -
  let ?st0 = "st\<lparr>trace := trace st @ [CompilerCreated]\<rparr>"
  obtain o1 st1 where body: "compilerRun w ?st0 = (o1, st1)" by (cases "compilerRun w ?st0")
  have o1: "o1 \<noteq> NeverSettles"
    using assms body by (auto simp: bundleWorker_def tryFinally_def split: completion.splits)
  obtain o2 st2 where fin: "compilerClose w st1 = (o2, st2)" by (cases "compilerClose w st1")
  have o2: "o2 \<noteq> NeverSettles" and st': "st' = st2"
    using assms body fin o1
    by (auto simp: bundleWorker_def tryFinally_def split: completion.splits)
  have st2: "st2 = st1\<lparr>trace := trace st1 @ [CloseStarted, CloseCalledBack]\<rparr>"
    using fin o2 by (auto simp: compilerClose_def split: option.splits)
  from compilerRun_effect [OF body o1] obtain during where
    eff: "sameSetup ?st0 st1"
      "dependencies (packageJson st1) =
         fold (\<lambda>(n, v). setProperty n v) (recordedPackages w ?st0 (hookCalls w)) (dependencies (packageJson ?st0))"
      "trace st1 = trace ?st0 @ [RunStarted] @ during" "RunCalledBack \<in> set during" "CloseStarted \<notin> set during"
    by blast
  have rec: "recordedPackages w ?st0 (hookCalls w) = recordedPackages w st (hookCalls w)"
    by (rule recordedPackages_cong) simp_all
  have "sameSetup st st'" using eff(1) by (simp add: st' st2 sameSetup_def)
  moreover have "dependencies (packageJson st') =
           fold (\<lambda>(n, v). setProperty n v) (recordedPackages w st (hookCalls w)) (dependencies (packageJson st))"
    using eff(2) rec by (simp add: st' st2)
  moreover have "trace st' = trace st @ [CompilerCreated, RunStarted] @ during @ [CloseStarted, CloseCalledBack]"
    using eff(3) by (simp add: st' st2)
  ultimately show ?thesis using eff(4,5) by blast
qed

lemma fold_setProperty_map_of:
  "k \<noteq> ''__proto__'' \<Longrightarrow>
   map_of (fold (\<lambda>(n, v). setProperty n v) xs d) k =
     (case map_of (rev xs) k of Some v \<Rightarrow> Some v | None \<Rightarrow> map_of d k)"
proof (induction xs arbitrary: d)
  case Nil
  then show ?case by simp
next
  case (Cons x xs)
  obtain n v where x: "x = (n, v)" by (cases x)
  have step: "map_of (setProperty n v d) k = (if n = k then Some v else map_of d k)"
    using Cons.prems by (auto simp: setProperty_def AList.update_conv')
  show ?case
    using Cons.IH [OF Cons.prems, of "setProperty n v d"] step
    by (auto simp: x map_add_def split: option.splits)
qed

lemma fold_setProperty_distinct:
  "distinct (map fst d) \<Longrightarrow> distinct (map fst (fold (\<lambda>(n, v). setProperty n v) xs d))"
proof (induction xs arbitrary: d)
  case Nil
  then show ?case by simp
next
  case (Cons x xs)
  obtain n v where x: "x = (n, v)" by (cases x)
  have "distinct (map fst (setProperty n v d))"
    using Cons.prems by (simp add: setProperty_def AList.distinct_update)
  from Cons.IH [OF this] show ?case by (simp add: x)
qed

lemma bundleWorkflowsLoop_effect:
  "bundleWorkflowsLoop w targetDirectory st defs = (outcome, st') \<Longrightarrow>
   packageJson st' = packageJson st \<and> targetPath' st' = targetPath' st"
proof (induction defs arbitrary: st)
  case Nil
  then show ?case by simp
next
  case (Cons d defs)
  show ?case
  proof (cases "bundleWorkflowCode w (sourcePath d)")
    case (Returned code)
    show ?thesis
    proof (cases "writeFileSync w (resolve (processCwd w) targetDirectory (targetPath d))")
      case None
      with Cons.prems Returned have
        "bundleWorkflowsLoop w targetDirectory
           (st\<lparr>trace := trace st @
                   [ConsoleLog [],
                    ConsoleLog (''Preparing workflows bundle from directory: '' @ sourcePath d),
                    WorkflowCodeBundled (sourcePath d),
                    FileWritten (resolve (processCwd w) targetDirectory (targetPath d)) (Code code)]\<rparr>)
           defs = (outcome, st')"
        by (simp add: Let_def)
      from Cons.IH [OF this] show ?thesis by simp
    next
      case (Some e)
      with Cons.prems Returned show ?thesis by (auto simp: Let_def)
    qed
  next
    case (Raised e)
    with Cons.prems show ?thesis by (auto simp: Let_def)
  next
    case NeverSettles
    with Cons.prems show ?thesis by (auto simp: Let_def)
  qed
qed

section \<open>Evaluation rules\<close>

text \<open>The defining equations that the simplifier unfolds to run the model on concrete inputs.\<close>

lemmas path_eval = startsWith_def resolve_def dirname_def dirname_scan_def isSlash_def
  isAbsolute_def normalizeString_def basename_def Let_def

lemmas rewriter_eval = workflowsTransform_def baseWorkflowsBundleId_def isAlnum_def
  stripLeadingHyphen_def stripTrailingHyphen_def targetPathOf_def collides_def keyIn_def
  objectPrototypeKeys_def suffixedId_def showNat.simps digitChar_def resolveCollision.simps
  entriesFor_def

lemmas pattern_eval = workflowBundlePattern_def lineTerminator_def isIdChar_def coreBridgePattern_def
  protoPattern_def commonPattern_def defaultExternalDepsPatterns_def someTest_def

lemmas regexp_eval = toRegExpSource_def escapeSearchString_def backslash_def startsWith_def
  newRegExpFragment_def syntaxChars_def lineTerminator_def toRegExp_def

lemmas example_eval = exampleFiles_def exampleIsDirectory_def exampleStat_def exampleExists_def
  exampleRequire_def exampleFS_def exampleResolve_def exampleBundler_def

lemmas boundary_eval = findPackageRoot_def findPackageRootLoop.simps boundaryPackage_def
  extractDependencies_def defaultLogic_def setProperty_def isRelativeRequest_def

lemmas build_eval = exampleWorld_def exampleFailingWorld_def bundle'_def bundleWorker_def tryFinally_def
  compilerRun_def compilerClose_def bundleWorkflows_def objectValues_def isArrayIndex_def readNat_def
  generatePackageJson_def

section \<open>Claims about the rewriter\<close>

text \<open>
  C2 (as amended). Two invocations of the rewriter within one build run whose reference
  strings resolve to the same absolute source path and derive the same candidate base
  identifier return the identical target path; the second invocation leaves the table as
  it finds it, whatever other references were rewritten in between; and when the table
  held no entry for that source path before the first invocation, it holds exactly one
  after it.
\<close>

theorem workflowsTransform_same_source_reuse:
  assumes c1: "workflowsTransform cwd t wp1 f1 = Inr (tp1, t1)"
      and c2: "workflowsTransform cwd (workflowsTransformAll cwd t1 refs) wp2 f2 = Inr (tp2, t2)"
      and src: "resolve cwd (dirname f1) wp1 = resolve cwd (dirname f2) wp2"
      and base: "baseWorkflowsBundleId wp1 = baseWorkflowsBundleId wp2"
  shows "tp2 = tp1 \<and> t2 = workflowsTransformAll cwd t1 refs \<and>
         (entriesFor t (resolve cwd (dirname f1) wp1) = [] \<longrightarrow>
            length (entriesFor t1 (resolve cwd (dirname f1) wp1)) = 1)"
proof -
  let ?s = "resolve cwd (dirname f1) wp1"
  let ?b = "baseWorkflowsBundleId wp1"
  let ?ta = "workflowsTransformAll cwd t1 refs"
  from c1 obtain w1 where w1: "w1 = resolveCollision t ?s ?b ?b 1" "tp1 = targetPathOf w1"
      "t1 = AList.update w1 \<lparr>sourcePath = ?s, targetPath = targetPathOf w1\<rparr> t"
      "\<not> collides t w1 ?s"
    by (rule workflowsTransform_Inr)
  from c2 obtain w2 where w2: "w2 = resolveCollision ?ta ?s ?b ?b 1" "tp2 = targetPathOf w2"
      "t2 = AList.update w2 \<lparr>sourcePath = ?s, targetPath = targetPathOf w2\<rparr> ?ta"
    by (rule workflowsTransform_Inr) (simp add: src base)
  have e1: "map_of t1 w1 = Some \<lparr>sourcePath = ?s, targetPath = targetPathOf w1\<rparr>"
    by (simp add: w1(3) AList.update_conv')
  then have ea: "map_of ?ta w1 = Some \<lparr>sourcePath = ?s, targetPath = targetPathOf w1\<rparr>"
    by (rule workflowsTransformAll_keeps_entry)
  have mono: "collides ?ta k ?s" if "collides t k ?s" for k
  proof -
    have "collides t1 k ?s" unfolding w1(3) by (rule collides_update) (use w1(4) that in simp_all)
    then show ?thesis by (rule workflowsTransformAll_collides_mono)
  qed
  have "\<not> collides ?ta w1 ?s" using ea by (simp add: present_not_collides)
  then have "resolveCollision ?ta ?s ?b ?b 1 = resolveCollision t ?s ?b ?b 1"
    unfolding w1(1) by (intro resolveCollision_stable mono)
  then have eq: "w2 = w1" by (simp add: w1(1) w2(1))
  have "t2 = ?ta" unfolding w2(3) eq using ea by (rule AList.update_triv)
  moreover have "length (entriesFor t1 ?s) = 1" if "entriesFor t ?s = []"
    unfolding w1(3) using update_new_entriesFor [OF that w1(4)] by simp
  ultimately show ?thesis using eq w1(2) w2(2) by simp
qed

theorem workflowsTransform_same_source_reuse_witness:
  "workflowsTransform ''/'' [] ''./wf'' ''/p/a.ts'' =
     Inr (''./wf.workflowbundle.js'',
          [(''wf'', \<lparr>sourcePath = ''/p/wf'', targetPath = ''./wf.workflowbundle.js''\<rparr>)]) \<and>
   workflowsTransform ''/''
     (workflowsTransformAll ''/''
        [(''wf'', \<lparr>sourcePath = ''/p/wf'', targetPath = ''./wf.workflowbundle.js''\<rparr>)]
        [(''./x/wf'', ''/p/a.ts'')])
     ''../wf'' ''/p/x/b.ts'' =
     Inr (''./wf.workflowbundle.js'',
          [(''wf'', \<lparr>sourcePath = ''/p/wf'', targetPath = ''./wf.workflowbundle.js''\<rparr>),
           (''wf-1'', \<lparr>sourcePath = ''/p/x/wf'', targetPath = ''./wf-1.workflowbundle.js''\<rparr>)]) \<and>
   resolve ''/'' (dirname ''/p/a.ts'') ''./wf'' = resolve ''/'' (dirname ''/p/x/b.ts'') ''../wf'' \<and>
   baseWorkflowsBundleId ''./wf'' = baseWorkflowsBundleId ''../wf'' \<and>
   entriesFor [] (resolve ''/'' (dirname ''/p/a.ts'') ''./wf'') = [] \<and>
   length (entriesFor [(''wf'', \<lparr>sourcePath = ''/p/wf'', targetPath = ''./wf.workflowbundle.js''\<rparr>)]
     (resolve ''/'' (dirname ''/p/a.ts'') ''./wf'')) = 1"
proof -
  have h1: "workflowsTransform ''/'' [] ''./wf'' ''/p/a.ts'' =
     Inr (''./wf.workflowbundle.js'',
          [(''wf'', \<lparr>sourcePath = ''/p/wf'', targetPath = ''./wf.workflowbundle.js''\<rparr>)])"
    by (simp add: path_eval rewriter_eval)
  have h2: "workflowsTransform ''/''
     (workflowsTransformAll ''/''
        [(''wf'', \<lparr>sourcePath = ''/p/wf'', targetPath = ''./wf.workflowbundle.js''\<rparr>)]
        [(''./x/wf'', ''/p/a.ts'')])
     ''../wf'' ''/p/x/b.ts'' =
     Inr (''./wf.workflowbundle.js'',
          [(''wf'', \<lparr>sourcePath = ''/p/wf'', targetPath = ''./wf.workflowbundle.js''\<rparr>),
           (''wf-1'', \<lparr>sourcePath = ''/p/x/wf'', targetPath = ''./wf-1.workflowbundle.js''\<rparr>)])"
    by (simp add: path_eval rewriter_eval)
  have h3: "resolve ''/'' (dirname ''/p/a.ts'') ''./wf'' = resolve ''/'' (dirname ''/p/x/b.ts'') ''../wf''"
    by (simp add: path_eval)
  have h4: "baseWorkflowsBundleId ''./wf'' = baseWorkflowsBundleId ''../wf''"
    by (simp add: path_eval rewriter_eval)
  have h5: "entriesFor [] (resolve ''/'' (dirname ''/p/a.ts'') ''./wf'') = []"
    by (simp add: entriesFor_def)
  from workflowsTransform_same_source_reuse [OF h1 h2 h3 h4] h1 h2 h3 h4 h5 show ?thesis by simp
qed

text \<open>
  C2 as stated fails when the two reference strings have different base names: the
  identifier is derived from the reference string, not from the resolved path.
  \<^verbatim>\<open>./wf\<close> and \<^verbatim>\<open>./wf/.\<close> in \<^verbatim>\<open>/p/f.ts\<close> both resolve to \<^verbatim>\<open>/p/wf\<close>, and the table ends up with
  two entries for it under two target paths.
\<close>

theorem workflowsTransform_same_source_counterexample:
  "resolve ''/'' (dirname ''/p/f.ts'') ''./wf'' = resolve ''/'' (dirname ''/p/f.ts'') ''./wf/.'' \<and>
   workflowsTransform ''/'' [] ''./wf'' ''/p/f.ts'' =
     Inr (''./wf.workflowbundle.js'',
          [(''wf'', \<lparr>sourcePath = ''/p/wf'', targetPath = ''./wf.workflowbundle.js''\<rparr>)]) \<and>
   workflowsTransform ''/''
     [(''wf'', \<lparr>sourcePath = ''/p/wf'', targetPath = ''./wf.workflowbundle.js''\<rparr>)]
     ''./wf/.'' ''/p/f.ts'' =
     Inr (''./.workflowbundle.js'',
          [(''wf'', \<lparr>sourcePath = ''/p/wf'', targetPath = ''./wf.workflowbundle.js''\<rparr>),
           ('''', \<lparr>sourcePath = ''/p/wf'', targetPath = ''./.workflowbundle.js''\<rparr>)]) \<and>
   ''./.workflowbundle.js'' \<noteq> ''./wf.workflowbundle.js'' \<and>
   length (entriesFor
     [(''wf'', \<lparr>sourcePath = ''/p/wf'', targetPath = ''./wf.workflowbundle.js''\<rparr>),
      ('''', \<lparr>sourcePath = ''/p/wf'', targetPath = ''./.workflowbundle.js''\<rparr>)] ''/p/wf'') = 2"
  by (simp add: path_eval rewriter_eval)


text \<open>
  C3 (as amended). Two invocations of the rewriter for different resolved source paths
  never receive the same identifier, whatever their base identifiers and whatever was
  rewritten in between. When both derive the same base identifier and that identifier
  is not yet in the table at the first invocation, the first keeps the base identifier
  and the second receives the base with a numeric suffix \<open>k \<ge> 1\<close>: the least one whose
  identifier is not in use for another source path.
\<close>

theorem allocator_distinct_identifiers:
  assumes c1: "workflowsTransform cwd t wp1 f1 = Inr (tp1, t1)"
      and c2: "workflowsTransform cwd (workflowsTransformAll cwd t1 refs) wp2 f2 = Inr (tp2, t2)"
      and src: "resolve cwd (dirname f1) wp1 \<noteq> resolve cwd (dirname f2) wp2"
  shows "tp1 \<noteq> tp2 \<and>
         (baseWorkflowsBundleId wp1 = baseWorkflowsBundleId wp2 \<and> \<not> keyIn (baseWorkflowsBundleId wp1) t \<longrightarrow>
            tp1 = targetPathOf (baseWorkflowsBundleId wp1) \<and>
            (\<exists>k\<ge>1. tp2 = targetPathOf (suffixedId (baseWorkflowsBundleId wp1) k) \<and>
               \<not> collides (workflowsTransformAll cwd t1 refs) (suffixedId (baseWorkflowsBundleId wp1) k)
                    (resolve cwd (dirname f2) wp2) \<and>
               (\<forall>j. 1 \<le> j \<and> j < k \<longrightarrow>
                  collides (workflowsTransformAll cwd t1 refs) (suffixedId (baseWorkflowsBundleId wp1) j)
                    (resolve cwd (dirname f2) wp2))))"
proof -
  let ?s1 = "resolve cwd (dirname f1) wp1"
  let ?s2 = "resolve cwd (dirname f2) wp2"
  let ?b = "baseWorkflowsBundleId wp1"
  let ?ta = "workflowsTransformAll cwd t1 refs"
  from c1 obtain w1 where w1: "w1 = resolveCollision t ?s1 ?b ?b 1" "tp1 = targetPathOf w1"
      "t1 = AList.update w1 \<lparr>sourcePath = ?s1, targetPath = targetPathOf w1\<rparr> t"
    by (rule workflowsTransform_Inr)
  from c2 obtain w2 where w2: "w2 = resolveCollision ?ta ?s2 (baseWorkflowsBundleId wp2) (baseWorkflowsBundleId wp2) 1"
      "tp2 = targetPathOf w2" "\<not> collides ?ta w2 ?s2"
    by (rule workflowsTransform_Inr)
  have e1: "map_of t1 w1 = Some \<lparr>sourcePath = ?s1, targetPath = targetPathOf w1\<rparr>"
    by (simp add: w1(3) AList.update_conv')
  then have ea: "map_of ?ta w1 = Some \<lparr>sourcePath = ?s1, targetPath = targetPathOf w1\<rparr>"
    by (rule workflowsTransformAll_keeps_entry)
  have blocked: "collides ?ta w1 ?s2" using ea src by (simp add: present_not_collides)
  with w2(3) have ne: "w1 \<noteq> w2" by auto
  have part1: "tp1 \<noteq> tp2" using ne w1(2) w2(2) by (auto dest: targetPathOf_inj)
  have part2: "tp1 = targetPathOf ?b \<and>
            (\<exists>k\<ge>1. tp2 = targetPathOf (suffixedId ?b k) \<and> \<not> collides ?ta (suffixedId ?b k) ?s2 \<and>
               (\<forall>j. 1 \<le> j \<and> j < k \<longrightarrow> collides ?ta (suffixedId ?b j) ?s2))"
    if base: "baseWorkflowsBundleId wp1 = baseWorkflowsBundleId wp2" and unused: "\<not> keyIn ?b t"
  proof -
    have "\<not> collides t ?b ?s1" using unused by (simp add: collides_def)
    then have w1b: "w1 = ?b" unfolding w1(1) by (subst resolveCollision.simps) simp
    from resolveCollision_shape [of ?ta ?s2 ?b ?b 1] blocked w2(3)
    obtain k where "k \<ge> 1" "w2 = suffixedId ?b k"
      "\<forall>j. 1 \<le> j \<and> j < k \<longrightarrow> collides ?ta (suffixedId ?b j) ?s2"
      unfolding w2(1) base [symmetric] w1b by auto
    then show ?thesis using w1b w1(2) w2(2,3) by auto
  qed
  from part1 part2 show ?thesis by blast
qed

theorem allocator_distinct_identifiers_witness:
  "workflowsTransform ''/'' [] ''./a'' ''/p/f.ts'' =
     Inr (''./a.workflowbundle.js'',
          [(''a'', \<lparr>sourcePath = ''/p/a'', targetPath = ''./a.workflowbundle.js''\<rparr>)]) \<and>
   workflowsTransform ''/''
     (workflowsTransformAll ''/''
        [(''a'', \<lparr>sourcePath = ''/p/a'', targetPath = ''./a.workflowbundle.js''\<rparr>)]
        [(''./a-1'', ''/p/f.ts'')])
     ''./x/a'' ''/p/f.ts'' =
     Inr (''./a-2.workflowbundle.js'',
          [(''a'', \<lparr>sourcePath = ''/p/a'', targetPath = ''./a.workflowbundle.js''\<rparr>),
           (''a-1'', \<lparr>sourcePath = ''/p/a-1'', targetPath = ''./a-1.workflowbundle.js''\<rparr>),
           (''a-2'', \<lparr>sourcePath = ''/p/x/a'', targetPath = ''./a-2.workflowbundle.js''\<rparr>)]) \<and>
   resolve ''/'' (dirname ''/p/f.ts'') ''./a'' \<noteq> resolve ''/'' (dirname ''/p/f.ts'') ''./x/a'' \<and>
   baseWorkflowsBundleId ''./a'' = baseWorkflowsBundleId ''./x/a'' \<and>
   \<not> keyIn (baseWorkflowsBundleId ''./a'') [] \<and>
   ''./a.workflowbundle.js'' \<noteq> ''./a-2.workflowbundle.js'' \<and>
   ''./a.workflowbundle.js'' = targetPathOf (baseWorkflowsBundleId ''./a'')"
proof -
  have h1: "workflowsTransform ''/'' [] ''./a'' ''/p/f.ts'' =
     Inr (''./a.workflowbundle.js'',
          [(''a'', \<lparr>sourcePath = ''/p/a'', targetPath = ''./a.workflowbundle.js''\<rparr>)])"
    by (simp add: path_eval rewriter_eval)
  have h2: "workflowsTransform ''/''
     (workflowsTransformAll ''/''
        [(''a'', \<lparr>sourcePath = ''/p/a'', targetPath = ''./a.workflowbundle.js''\<rparr>)]
        [(''./a-1'', ''/p/f.ts'')])
     ''./x/a'' ''/p/f.ts'' =
     Inr (''./a-2.workflowbundle.js'',
          [(''a'', \<lparr>sourcePath = ''/p/a'', targetPath = ''./a.workflowbundle.js''\<rparr>),
           (''a-1'', \<lparr>sourcePath = ''/p/a-1'', targetPath = ''./a-1.workflowbundle.js''\<rparr>),
           (''a-2'', \<lparr>sourcePath = ''/p/x/a'', targetPath = ''./a-2.workflowbundle.js''\<rparr>)])"
    by (simp add: path_eval rewriter_eval)
  have h3: "resolve ''/'' (dirname ''/p/f.ts'') ''./a'' \<noteq> resolve ''/'' (dirname ''/p/f.ts'') ''./x/a''"
    by (simp add: path_eval)
  have h4: "baseWorkflowsBundleId ''./a'' = baseWorkflowsBundleId ''./x/a''"
    by (simp add: path_eval rewriter_eval)
  have h5: "\<not> keyIn (baseWorkflowsBundleId ''./a'') []"
    by (simp add: path_eval rewriter_eval)
  from allocator_distinct_identifiers [OF h1 h2 h3] h1 h2 h3 h4 h5 show ?thesis by blast
qed

text \<open>
  C3 as stated fails where the base identifier is already taken when the first of the two
  references is rewritten: after \<^verbatim>\<open>./a\<close> and \<^verbatim>\<open>./x/a\<close> the identifier \<^verbatim>\<open>a-1\<close> belongs to
  \<^verbatim>\<open>/p/x/a\<close>, so of the two references \<^verbatim>\<open>./a-1\<close> and \<^verbatim>\<open>./y/a-1\<close> the first receives
  \<^verbatim>\<open>a-1-1\<close>, not its base identifier.
\<close>

theorem allocator_first_keeps_base_counterexample:
  "workflowsTransformAll ''/'' [] [(''./a'', ''/p/f.ts''), (''./x/a'', ''/p/f.ts'')] =
     [(''a'', \<lparr>sourcePath = ''/p/a'', targetPath = ''./a.workflowbundle.js''\<rparr>),
      (''a-1'', \<lparr>sourcePath = ''/p/x/a'', targetPath = ''./a-1.workflowbundle.js''\<rparr>)] \<and>
   baseWorkflowsBundleId ''./a-1'' = ''a-1'' \<and>
   baseWorkflowsBundleId ''./y/a-1'' = ''a-1'' \<and>
   resolve ''/'' (dirname ''/p/f.ts'') ''./a-1'' \<noteq> resolve ''/'' (dirname ''/p/f.ts'') ''./y/a-1'' \<and>
   workflowsTransform ''/''
     [(''a'', \<lparr>sourcePath = ''/p/a'', targetPath = ''./a.workflowbundle.js''\<rparr>),
      (''a-1'', \<lparr>sourcePath = ''/p/x/a'', targetPath = ''./a-1.workflowbundle.js''\<rparr>)]
     ''./a-1'' ''/p/f.ts'' =
     Inr (''./a-1-1.workflowbundle.js'',
       [(''a'', \<lparr>sourcePath = ''/p/a'', targetPath = ''./a.workflowbundle.js''\<rparr>),
        (''a-1'', \<lparr>sourcePath = ''/p/x/a'', targetPath = ''./a-1.workflowbundle.js''\<rparr>),
        (''a-1-1'', \<lparr>sourcePath = ''/p/a-1'', targetPath = ''./a-1-1.workflowbundle.js''\<rparr>)]) \<and>
   workflowsTransform ''/''
     [(''a'', \<lparr>sourcePath = ''/p/a'', targetPath = ''./a.workflowbundle.js''\<rparr>),
      (''a-1'', \<lparr>sourcePath = ''/p/x/a'', targetPath = ''./a-1.workflowbundle.js''\<rparr>),
      (''a-1-1'', \<lparr>sourcePath = ''/p/a-1'', targetPath = ''./a-1-1.workflowbundle.js''\<rparr>)]
     ''./y/a-1'' ''/p/f.ts'' =
     Inr (''./a-1-2.workflowbundle.js'',
       [(''a'', \<lparr>sourcePath = ''/p/a'', targetPath = ''./a.workflowbundle.js''\<rparr>),
        (''a-1'', \<lparr>sourcePath = ''/p/x/a'', targetPath = ''./a-1.workflowbundle.js''\<rparr>),
        (''a-1-1'', \<lparr>sourcePath = ''/p/a-1'', targetPath = ''./a-1-1.workflowbundle.js''\<rparr>),
        (''a-1-2'', \<lparr>sourcePath = ''/p/y/a-1'', targetPath = ''./a-1-2.workflowbundle.js''\<rparr>)]) \<and>
   ''./a-1-1.workflowbundle.js'' \<noteq> targetPathOf ''a-1''"
  by (simp add: path_eval rewriter_eval)

text \<open>
  C8. The claim is that every run of non-alphanumeric characters of the base filename is
  collapsed to one separator. The first \<^verbatim>\<open>replace\<close> has no \<^verbatim>\<open>g\<close> flag and rewrites the first
  run only: the candidate for \<^verbatim>\<open>./my.workflows.ts\<close> keeps its second dot.
\<close>

theorem baseWorkflowsBundleId_keeps_later_runs:
  "baseWorkflowsBundleId ''./my.workflows.ts'' = ''my-workflows.ts'' \<and>
   \<not> list_all (\<lambda>c. isAlnum c \<or> c = CHR ''-'') (baseWorkflowsBundleId ''./my.workflows.ts'')"
  by (simp add: path_eval rewriter_eval)

text \<open>
  C9. The claim is that every target path the rewriter returns matches the built-in
  pattern for workflow bundles. The candidate keeps upper-case letters (the class is
  case-insensitive), which the pattern does not admit: the target path for
  \<^verbatim>\<open>./myWorkflows\<close> is matched by none of the built-in patterns.
\<close>

theorem workflowsTransform_target_not_matched:
  "workflowsTransform ''/'' [] ''./myWorkflows'' ''/p/worker.ts'' =
     Inr (''./myWorkflows.workflowbundle.js'',
          [(''myWorkflows'',
            \<lparr>sourcePath = ''/p/myWorkflows'', targetPath = ''./myWorkflows.workflowbundle.js''\<rparr>)]) \<and>
   \<not> workflowBundlePattern ''./myWorkflows.workflowbundle.js'' \<and>
   \<not> someTest (defaultExternalDepsPatterns []) ''./myWorkflows.workflowbundle.js''"
  by (simp add: path_eval rewriter_eval pattern_eval)


section \<open>Claims about patterns and the package boundary\<close>

text \<open>
  C5. The claim is that a literal string compiles to a pattern that matches exactly that
  string, its metacharacters escaped. The escaping \<^verbatim>\<open>replace\<close> searches for a fixed
  14-character string instead of a character class, so the literal goes into the pattern
  as it stands: the rule \<^verbatim>\<open>a.b\<close> becomes \<^verbatim>\<open>^a.b$\<close>, which also matches \<^verbatim>\<open>axb\<close>.
\<close>

theorem toRegExp_literal_dot_is_wildcard:
  "toRegExpSource ''a.b'' = ''^a.b$'' \<and>
   map_option (\<lambda>r. r ''axb'') (newRegExpFragment (toRegExpSource ''a.b'')) = Some True"
  by (simp add: regexp_eval)

text \<open>
  C10 (as amended). For every absolute POSIX input path \<open>findPackageRoot\<close> terminates:
  when \<^verbatim>\<open>statSync\<close> throws on the path, with that error; otherwise with a directory that
  holds a package descriptor, or with null. The walk ends because each \<open>dirname\<close> of an
  absolute path other than the root is absolute and strictly shorter
  (\<open>dirname_absolute\<close>); a relative path stays relative (\<open>dirname_relative\<close>), so that
  its walk can only end at a descriptor (\<open>findPackageRootLoop_relative\<close>) and does not
  end where there is none (\<open>findPackageRootLoop_relative_diverges\<close>).
\<close>

theorem findPackageRoot_absolute:
  assumes "isAbsolute p"
  shows "case statSyncIsFile fs p of
           Inl e \<Rightarrow> findPackageRoot fs p = Some (Inl e)
         | Inr isFile \<Rightarrow>
             \<exists>r. findPackageRoot fs p = Some (Inr r) \<and>
                 (case r of None \<Rightarrow> True | Some d \<Rightarrow> existsSync fs (d @ ''/package.json''))"
proof (cases "statSyncIsFile fs p")
  case (Inl e)
  then show ?thesis by (simp add: findPackageRoot_def)
next
  case (Inr isFile)
  let ?start = "if isFile then dirname p else p"
  have "isAbsolute ?start"
  proof (cases "isFile \<and> p \<noteq> ''/''")
    case True
    then show ?thesis using dirname_absolute [OF assms] by simp
  next
    case False
    then show ?thesis using assms by (auto simp: dirname_def dirname_scan_def isAbsolute_def isSlash_def)
  qed
  from findPackageRootLoop_terminates [OF this, of fs]
  obtain r where "findPackageRootLoop fs ?start = Some r"
    "case r of None \<Rightarrow> True | Some d \<Rightarrow> isAbsolute d \<and> existsSync fs (d @ ''/package.json'')"
    by blast
  then show ?thesis using Inr by (auto simp: findPackageRoot_def split: option.splits)
qed

theorem findPackageRoot_absolute_witness:
  "isAbsolute ''/app/src/worker.ts'' \<and>
   statSyncIsFile exampleFS ''/app/src/worker.ts'' = Inr True \<and>
   (\<exists>r. findPackageRoot exampleFS ''/app/src/worker.ts'' = Some (Inr r) \<and>
        (case r of None \<Rightarrow> True | Some d \<Rightarrow> existsSync exampleFS (d @ ''/package.json'')))"
proof -
  have h: "isAbsolute ''/app/src/worker.ts''" by (simp add: path_eval)
  have s: "statSyncIsFile exampleFS ''/app/src/worker.ts'' = Inr True" by (simp add: example_eval)
  from findPackageRoot_absolute [OF h, of exampleFS] h s show ?thesis by simp
qed

text \<open>
  C10 as stated promises a directory or null for every absolute path; on a path that does
  not exist \<^verbatim>\<open>statSync\<close> throws and \<open>findPackageRoot\<close> returns neither.
\<close>

theorem findPackageRoot_raises_counterexample:
  "isAbsolute ''/missing/file.js'' \<and>
   findPackageRoot exampleFS ''/missing/file.js'' = Some (Inl (Error ''ENOENT''))"
  by (simp add: boundary_eval example_eval path_eval)


section \<open>Claims about the classifier and the build\<close>

text \<open>
  C1 (as amended). When the main build resolves a request to a file whose package
  boundary is missing or is the entrypoint's own, the classifier consults no package
  name and records no dependency: it decides on the request string alone, externalizing
  the request when the string matches a rule and inlining it otherwise.
\<close>

theorem extractDependencies_own_boundary:
  assumes "getResolve context request = ResolvedPath resolvedPath"
      and "findPackageRoot files resolvedPath = Some (Inr packageRoot)"
      and "packageRoot = None \<or> packageRoot = entrypointPackageRoot st"
  shows "\<exists>st'. extractDependencies files getResolve st context request =
           Some (if someTest (externalDepsPatterns st) request
                 then Some (''commonjs '' @ request) else None, st') \<and>
         packageJson st' = packageJson st \<and> workflowsBundles st' = workflowsBundles st"
proof -
  have "boundaryPackage files getResolve (entrypointPackageRoot st) context request = Some None"
    using assms by (auto simp: boundaryPackage_def split: option.splits)
  then show ?thesis by (simp add: extractDependencies_def defaultLogic_def)
qed

theorem extractDependencies_own_boundary_witness:
  "exampleResolve ''/app/src'' ''./wf.workflowbundle.js'' = ResolvedPath ''/app/src/wf.workflowbundle.js'' \<and>
   findPackageRoot exampleFS ''/app/src/wf.workflowbundle.js'' = Some (Inr (Some ''/app'')) \<and>
   (Some ''/app'' = None \<or> Some ''/app'' = entrypointPackageRoot exampleBundler) \<and>
   (\<exists>st'. extractDependencies exampleFS exampleResolve exampleBundler ''/app/src'' ''./wf.workflowbundle.js'' =
           Some (if someTest (externalDepsPatterns exampleBundler) ''./wf.workflowbundle.js''
                 then Some (''commonjs '' @ ''./wf.workflowbundle.js'') else None, st') \<and>
         packageJson st' = packageJson exampleBundler \<and> workflowsBundles st' = workflowsBundles exampleBundler)"
proof -
  have h1: "exampleResolve ''/app/src'' ''./wf.workflowbundle.js'' = ResolvedPath ''/app/src/wf.workflowbundle.js''"
    by (simp add: example_eval)
  have h2: "findPackageRoot exampleFS ''/app/src/wf.workflowbundle.js'' = Some (Inr (Some ''/app''))"
    by (simp add: boundary_eval example_eval path_eval)
  have h3: "Some ''/app'' = None \<or> Some ''/app'' = entrypointPackageRoot exampleBundler"
    by (simp add: example_eval)
  from extractDependencies_own_boundary
         [of exampleResolve "''/app/src''" "''./wf.workflowbundle.js''" _ exampleFS _ exampleBundler,
          OF h1 h2 h3]
       h1 h2 h3
  show ?thesis by blast
qed

text \<open>
  C1 as stated fails for a request whose string matches a rule: a workflow bundle left in
  the source directory by an earlier build resolves inside the entrypoint's own package,
  and the request \<^verbatim>\<open>./wf.workflowbundle.js\<close> is externalized all the same.
\<close>

theorem extractDependencies_own_boundary_counterexample:
  "exampleResolve ''/app/src'' ''./wf.workflowbundle.js'' = ResolvedPath ''/app/src/wf.workflowbundle.js'' \<and>
   findPackageRoot exampleFS ''/app/src/wf.workflowbundle.js'' = Some (Inr (Some ''/app'')) \<and>
   entrypointPackageRoot exampleBundler = Some ''/app'' \<and>
   map_option fst (extractDependencies exampleFS exampleResolve exampleBundler ''/app/src'' ''./wf.workflowbundle.js'') =
     Some (Some ''commonjs ./wf.workflowbundle.js'')"
  by (simp add: boundary_eval example_eval path_eval pattern_eval)

text \<open>
  C6. Whenever \<open>bundleWorker\<close> returns or raises, whether the run succeeded or failed, the
  last thing it did was to call \<^verbatim>\<open>compiler.close\<close> and to wait for its callback, after
  the callback of the run; \<^verbatim>\<open>close\<close> is not called before that. The compiler is the one
  that \<^verbatim>\<open>webpack(webpackConfig)\<close> returned before the \<^verbatim>\<open>try\<close> block was entered.
\<close>

theorem bundleWorker_closes_compiler:
  assumes "bundleWorker w st = (outcome, st')" and "outcome \<noteq> NeverSettles"
  shows "\<exists>during. trace st' = trace st @ [CompilerCreated, RunStarted] @ during @ [CloseStarted, CloseCalledBack] \<and>
           RunCalledBack \<in> set during \<and> CloseStarted \<notin> set during"
  using bundleWorker_effect [OF assms] by blast

theorem bundleWorker_closes_compiler_witness:
  "fst (bundleWorker exampleFailingWorld exampleBundler) = Raised (Error ''Webpack finished with errors.'') \<and>
   Raised (Error ''Webpack finished with errors.'') \<noteq> (NeverSettles :: unit completion) \<and>
   (\<exists>during. trace (snd (bundleWorker exampleFailingWorld exampleBundler)) =
        trace exampleBundler @ [CompilerCreated, RunStarted] @ during @ [CloseStarted, CloseCalledBack] \<and>
      RunCalledBack \<in> set during \<and> CloseStarted \<notin> set during)"
proof -
  have h1: "fst (bundleWorker exampleFailingWorld exampleBundler) = Raised (Error ''Webpack finished with errors.'')"
    by (simp add: build_eval boundary_eval example_eval path_eval pattern_eval rewriter_eval)
  then have h1': "bundleWorker exampleFailingWorld exampleBundler =
      (Raised (Error ''Webpack finished with errors.''), snd (bundleWorker exampleFailingWorld exampleBundler))"
    by (metis prod.collapse)
  have h2: "Raised (Error ''Webpack finished with errors.'') \<noteq> (NeverSettles :: unit completion)" by simp
  from bundleWorker_closes_compiler [OF h1' h2] h1 h2 show ?thesis by blast
qed

text \<open>
  C7 (as amended). After a completed \<open>bundle\<close> run that started with no dependencies,
  the manifest written last holds each key once, and for every name other than
  \<^verbatim>\<open>__proto__\<close> it maps the name to the version declared by the boundary that was
  classified last among the externalized, boundary-resolved packages of that name, and
  has no key for a name that no such package bears: a request externalized by the
  raw-string fallback adds none.
\<close>

theorem manifest_dependencies:
  assumes "bundle' w st = (Returned (), st')"
      and "dependencies (packageJson st) = []"
  shows "(\<exists>before. trace st' =
            before @ [FileWritten (dirname (targetPath' st) @ ''/package.json'') (Manifest (packageJson st'))]) \<and>
         distinct (map fst (dependencies (packageJson st'))) \<and>
         (\<forall>k. k \<noteq> ''__proto__'' \<longrightarrow>
            map_of (dependencies (packageJson st')) k =
            map_of (rev (recordedPackages w st (hookCalls w))) k)"
proof -
  obtain o1 st1 where bw: "bundleWorker w st = (o1, st1)" by (cases "bundleWorker w st")
  have o1: "o1 = Returned ()"
    using assms(1) bw by (auto simp: bundle'_def split: completion.splits prod.splits)
  obtain o2 st2 where bf: "bundleWorkflows w (dirname (targetPath' st1)) st1 = (o2, st2)"
    by (cases "bundleWorkflows w (dirname (targetPath' st1)) st1")
  have o2: "o2 = Returned ()"
    using assms(1) bw o1 bf by (auto simp: bundle'_def split: completion.splits prod.splits)
  have gen: "generatePackageJson w (dirname (targetPath' st2)) st2 = (Returned (), st')"
    using assms(1) bw o1 bf o2 by (simp add: bundle'_def)
  from bundleWorker_effect [OF bw] o1 have
    e1: "sameSetup st st1"
        "dependencies (packageJson st1) =
           fold (\<lambda>(n, v). setProperty n v) (recordedPackages w st (hookCalls w)) (dependencies (packageJson st))"
    by simp_all
  from bf have e2: "packageJson st2 = packageJson st1" "targetPath' st2 = targetPath' st1"
    using bundleWorkflowsLoop_effect [of w _ st1 _ o2 st2] by (simp_all add: bundleWorkflows_def)
  have tp: "targetPath' st2 = targetPath' st" using e1(1) e2(2) by (simp add: sameSetup_def)
  from gen have st': "st' = st2\<lparr>trace := trace st2 @
      [FileWritten (dirname (targetPath' st2) @ ''/package.json'') (Manifest (packageJson st2))]\<rparr>"
    by (auto simp: generatePackageJson_def split: option.splits)
  have pj: "packageJson st' = packageJson st1" using e2(1) by (simp add: st')
  have deps: "dependencies (packageJson st') =
      fold (\<lambda>(n, v). setProperty n v) (recordedPackages w st (hookCalls w)) []"
    using e1(2) assms(2) pj by simp
  have a: "\<exists>before. trace st' =
            before @ [FileWritten (dirname (targetPath' st) @ ''/package.json'') (Manifest (packageJson st'))]"
    using tp pj e2(1) by (simp add: st')
  have b: "distinct (map fst (dependencies (packageJson st')))"
    unfolding deps by (rule fold_setProperty_distinct) simp
  have c: "map_of (dependencies (packageJson st')) k =
            map_of (rev (recordedPackages w st (hookCalls w))) k" if "k \<noteq> ''__proto__''" for k
    unfolding deps using fold_setProperty_map_of [OF that, of "recordedPackages w st (hookCalls w)" "[]"]
    by (simp split: option.splits)
  from a b c show ?thesis by blast
qed

theorem manifest_dependencies_witness:
  "fst (bundle' exampleWorld exampleBundler) = Returned () \<and>
   dependencies (packageJson exampleBundler) = [] \<and>
   ''@temporalio/common'' \<noteq> ''__proto__'' \<and>
   recordedPackages exampleWorld exampleBundler (hookCalls exampleWorld) =
     [(''@temporalio/common'', ''1.0.0''), (''@temporalio/common'', ''1.1.0'')] \<and>
   map_of (dependencies (packageJson (snd (bundle' exampleWorld exampleBundler)))) ''@temporalio/common'' =
     Some ''1.1.0'' \<and>
   distinct (map fst (dependencies (packageJson (snd (bundle' exampleWorld exampleBundler)))))"
proof -
  have h1: "fst (bundle' exampleWorld exampleBundler) = Returned ()"
    by (simp add: build_eval boundary_eval example_eval path_eval pattern_eval rewriter_eval)
  then have h1': "bundle' exampleWorld exampleBundler = (Returned (), snd (bundle' exampleWorld exampleBundler))"
    by (metis prod.collapse)
  have h2: "dependencies (packageJson exampleBundler) = []" by (simp add: example_eval)
  have h3: "''@temporalio/common'' \<noteq> ''__proto__''" by simp
  have r: "recordedPackages exampleWorld exampleBundler (hookCalls exampleWorld) =
     [(''@temporalio/common'', ''1.0.0''), (''@temporalio/common'', ''1.1.0'')]"
    by (simp add: build_eval boundary_eval example_eval path_eval pattern_eval)
  from manifest_dependencies [OF h1' h2] h3 r
  have "map_of (dependencies (packageJson (snd (bundle' exampleWorld exampleBundler)))) ''@temporalio/common'' =
     Some ''1.1.0''"
    and "distinct (map fst (dependencies (packageJson (snd (bundle' exampleWorld exampleBundler)))))"
    by simp_all
  with h1 h2 h3 r show ?thesis by simp
qed

text \<open>
  C7 as stated maps every externalized, boundary-resolved package to the version its
  boundary declares. With two copies of \<^verbatim>\<open>@temporalio/common\<close> installed, both are
  externalized, and the manifest keeps the version of the copy classified last: the
  copy that the entrypoint itself imports declares \<^verbatim>\<open>1.0.0\<close>, the manifest says \<^verbatim>\<open>1.1.0\<close>.
\<close>

theorem manifest_version_counterexample:
  "boundaryPackage exampleFS exampleResolve (entrypointPackageRoot exampleBundler)
     ''/app/src'' ''@temporalio/common'' = Some (Some (''@temporalio/common'', ''1.0.0'')) \<and>
   map_option fst (extractDependencies exampleFS exampleResolve exampleBundler
     ''/app/src'' ''@temporalio/common'') = Some (Some ''commonjs @temporalio/common'') \<and>
   ExternalsCall ''/app/src'' ''@temporalio/common'' \<in> set (hookCalls exampleWorld) \<and>
   fst (bundle' exampleWorld exampleBundler) = Returned () \<and>
   dependencies (packageJson (snd (bundle' exampleWorld exampleBundler))) =
     [(''@temporalio/common'', ''1.1.0'')]"
  by (simp add: build_eval boundary_eval example_eval path_eval pattern_eval rewriter_eval)

end
